theory Spec2Isabelle
  imports Main "HOL-Library.Sublist"
begin

section \<open>Thrown values and the failure classifier\<close>

text \<open>
  The analysis service (\<^verbatim>\<open>src/services/geminiService.ts\<close>) is asynchronous JavaScript. A
  rejected promise carries a thrown value; the service inspects it with
  \<^verbatim>\<open>instanceof TypeError\<close>, \<^verbatim>\<open>instanceof APIError\<close>, \<^verbatim>\<open>instanceof Error\<close> and by reading
  \<^verbatim>\<open>.message\<close> and \<^verbatim>\<open>.status\<close>. An Error instance is modelled by its class and message; the
  class \<open>APIError\<close> carries the HTTP status. \<open>SyntaxError\<close> is what \<^verbatim>\<open>JSON.parse\<close> throws;
  \<open>GenericError\<close> stands for \<^verbatim>\<open>new Error(...)\<close> and every other Error subclass.
\<close>

datatype error_class = TypeError | APIError int | SyntaxError | GenericError

datatype js_error = JsError (errorClass: error_class) (message: string)

text \<open>
  JavaScript can throw any value. \<open>NonError s m\<close> is a thrown value that is not an Error
  instance (and not \<^verbatim>\<open>null\<close>/\<^verbatim>\<open>undefined\<close>): \<open>s\<close> is \<^verbatim>\<open>String(e)\<close> and \<open>m\<close> its
  \<^verbatim>\<open>message\<close> property when that is a string.
\<close>

datatype thrown = ErrorObject js_error | NonError (asText: string) (messageProp: "string option")

fun instanceofTypeError :: "thrown \<Rightarrow> bool" where
  "instanceofTypeError (ErrorObject (JsError TypeError m)) = True"
| "instanceofTypeError _ = False"

fun apiStatus :: "thrown \<Rightarrow> int option" where
  "apiStatus (ErrorObject (JsError (APIError st) m)) = Some st"
| "apiStatus _ = None"

fun messageOf :: "thrown \<Rightarrow> string option" where
  "messageOf (ErrorObject e) = Some (message e)"
| "messageOf (NonError s m) = m"

text \<open>
  \<^verbatim>\<open>String.prototype.includes\<close>: \<open>strIncludes s t\<close> holds when \<open>t\<close> occurs in \<open>s\<close>. (The
  source's name is a keyword of the theory language.)
\<close>

fun strIncludes :: "string \<Rightarrow> string \<Rightarrow> bool" where
  "strIncludes [] t = (t = [])"
| "strIncludes (c # s) t = (prefix t (c # s) \<or> strIncludes s t)"

text \<open>
  \<^verbatim>\<open>isRetryableError\<close> (lines 22-35), branch by branch: a TypeError whose message is exactly
  \<^verbatim>\<open>Failed to fetch\<close>; an APIError, decided by its status alone; otherwise the two message
  substrings.
\<close>

definition isRetryableError :: "thrown \<Rightarrow> bool" where
  "isRetryableError e =
     (if instanceofTypeError e \<and> messageOf e = Some ''Failed to fetch'' then True
      else case apiStatus e of
        Some st \<Rightarrow> st = 429 \<or> (500 \<le> st \<and> st \<le> 504)
      | None \<Rightarrow>
          (case messageOf e of
             Some m \<Rightarrow> (if strIncludes m ''rate limit'' \<or> strIncludes m ''503'' then True else False)
           | None \<Rightarrow> False))"


section \<open>The retry engine\<close>

text \<open>
  \<^verbatim>\<open>retryWithBackoff(fn, {retries, onRetry})\<close> (lines 37-57). The operation \<open>fn\<close> is called
  once per attempt; \<open>fn k\<close> is how the call of attempt \<open>k\<close> settles. The engine's effects are
  the calls of \<open>fn\<close>, the calls of \<open>onRetry\<close> and the timers it awaits; they are recorded in
  order as events, \<open>Wait d\<close> being \<^verbatim>\<open>await new Promise(r => setTimeout(r, d))\<close> with \<open>d\<close> in
  milliseconds. The caller interprets \<open>OnRetry\<close> by running its callback.
\<close>

datatype 'a attempt = Resolves 'a | Rejects thrown

datatype event = Call nat | OnRetry js_error nat | Wait nat

text \<open>\<^verbatim>\<open>throw lastError\<close> after the loop throws \<^verbatim>\<open>null\<close> when no attempt was made.\<close>

datatype 'a outcome = Returned 'a | Threw js_error | ThrewNull

text \<open>\<^verbatim>\<open>e instanceof Error ? e : new Error(String(e))\<close>\<close>

fun toError :: "thrown \<Rightarrow> js_error" where
  "toError (ErrorObject e) = e"
| "toError (NonError s m) = JsError GenericError s"

text \<open>
  The \<^verbatim>\<open>for\<close> loop, from the attempt it is at. \<open>retries\<close> is a count (the one caller passes 2).
\<close>

function retryLoop ::
  "(nat \<Rightarrow> 'a attempt) \<Rightarrow> nat \<Rightarrow> nat \<Rightarrow> js_error option \<Rightarrow> event list \<times> 'a outcome" where
  "retryLoop fn retries attempt lastError =
     (if attempt \<le> retries + 1 then
        (case fn attempt of
           Resolves v \<Rightarrow> ([Call attempt], Returned v)
         | Rejects e \<Rightarrow>
             (if isRetryableError e \<and> attempt \<le> retries then
                (let delay = 1000 * 2 ^ (attempt - 1);
                     (evs, r) = retryLoop fn retries (attempt + 1) (Some (toError e))
                 in (Call attempt # OnRetry (toError e) attempt # Wait delay # evs, r))
              else ([Call attempt], Threw (toError e))))
      else ([], case lastError of None \<Rightarrow> ThrewNull | Some e \<Rightarrow> Threw e))"
  by pat_completeness auto
termination
  by (relation "measure (\<lambda>(fn, retries, attempt, lastError). retries + 1 - attempt)") auto

definition retryWithBackoff :: "(nat \<Rightarrow> 'a attempt) \<Rightarrow> nat \<Rightarrow> event list \<times> 'a outcome" where
  "retryWithBackoff fn retries = retryLoop fn retries 1 None"

section \<open>Configuration, wire replies and results\<close>

text \<open>
  The types of \<^verbatim>\<open>types.ts\<close>. An optional string field is a \<open>string option\<close>; JavaScript's
  truthiness test on it (\<^verbatim>\<open>!apiKey\<close>, \<^verbatim>\<open>x || 'default'\<close>, \<^verbatim>\<open>if (error)\<close>) fails for
  \<^verbatim>\<open>undefined\<close> and for the empty string.
\<close>

datatype provider = Gemini | OpenAI | OpenAIWebSearch | Perplexity

definition truthy :: "string option \<Rightarrow> bool" where
  "truthy v = (case v of None \<Rightarrow> False | Some s \<Rightarrow> s \<noteq> [])"

record api_keys =
  geminiKey :: "string option"
  openaiKey :: "string option"
  perplexityKey :: "string option"

record app_config =
  providers :: "provider list"
  apiKeys :: api_keys
  models :: "provider \<Rightarrow> string option"
  clientName :: string
  competitors :: "string list"
  prompts :: "string list"
  additionalQuestions :: "string list"
  broadMatch :: bool

record brand_analysis =
  brandName :: string
  mentions :: int
  sentiment :: string

record additional_answer =
  question :: string
  answer :: string

record citation =
  index :: nat
  url :: string
  title :: "string option"

text \<open>
  What the providers send back. Only the fields the adapters read are kept. A reply of the
  Gemini client has \<^verbatim>\<open>text\<close> and \<^verbatim>\<open>usageMetadata\<close> (prompt, candidates and thoughts token
  counts); a chat completion has \<^verbatim>\<open>choices[0].message.content\<close> and \<^verbatim>\<open>usage\<close> (prompt and
  completion tokens, a missing count read as 0). Replies are well-formed completions: where
  the adapter reads \<^verbatim>\<open>choices[0].message.content\<close> without a guard, the content is a string.
  The web-search adapter guards every access with \<^verbatim>\<open>?.\<close>, so there the message and its
  content are optional.
\<close>

record gemini_reply =
  gText :: string
  usageMetadata :: "(nat \<times> nat \<times> nat) option"

record chat_reply =
  content :: string
  usage :: "(nat \<times> nat) option"

record search_result =
  resultUrl :: "string option"
  resultTitle :: "string option"

text \<open>
  Perplexity's first reply: \<open>pplxCitations\<close> is \<^verbatim>\<open>rawData.citations\<close> when it is an array (an
  item that is not a string is \<open>None\<close>), \<open>searchResults\<close> is \<^verbatim>\<open>rawData.search_results\<close> when it
  is an array (\<open>resultUrl\<close> is \<open>None\<close> for a falsy item or a url that is not a string).
\<close>

record perplexity_reply =
  pplxContent :: string
  pplxUsage :: "(nat \<times> nat) option"
  pplxCitations :: "string option list option"
  searchResults :: "search_result list option"

record annotation =
  annotationType :: "string option"
  citationUrl :: "string option"
  citationTitle :: "string option"

record ws_message =
  messageContent :: "string option"
  annotations :: "annotation list option"

record websearch_reply =
  wsMessage :: "ws_message option"
  wsUsage :: "(nat \<times> nat) option"

text \<open>
  \<^verbatim>\<open>rawResponse\<close> is \<^verbatim>\<open>JSON.stringify\<close> of either the list of raw payloads of every call or of
  the caught exception. The JSON text is represented by the value that is serialised. The
  payloads are data parsed from the replies of the providers, which serialises without an
  exception; for a caught exception the serialisation can throw, see \<open>stringifyThrows\<close>
  below.
\<close>

datatype raw_data =
  GeminiData gemini_reply | ChatData chat_reply | PerplexityData perplexity_reply
  | WebSearchData websearch_reply

record raw_entry =
  entryType :: string
  entryQuestion :: "string option"
  entryData :: raw_data

datatype raw_dump = CallTrace "raw_entry list" | ErrorDump js_error

text \<open>
  \<open>brandAnalyses\<close> is \<open>None\<close> for JavaScript's \<^verbatim>\<open>undefined\<close>, which only the Perplexity adapter
  can produce (a fenced object without a \<^verbatim>\<open>brands\<close> key).
\<close>

record provider_response =
  provider :: provider
  response :: string
  brandAnalyses :: "brand_analysis list option"
  additionalAnswers :: "additional_answer list"
  rawResponse :: "raw_dump option"
  error :: "string option"
  citations :: "citation list option"
  tokenUsage :: "(nat \<times> nat) option"
  analysisTokenUsage :: "(nat \<times> nat) option"

record analysis_result =
  prompt :: string
  providerResponses :: "provider_response list"

text \<open>
  \<^verbatim>\<open>JSON.parse\<close> and \<^verbatim>\<open>JSON.stringify\<close> belong to the runtime, not to the repository; they
  are parameters. The adapters use \<^verbatim>\<open>JSON.parse\<close> in two ways: \<open>parseArray t\<close> is
  \<^verbatim>\<open>JSON.parse(t)\<close> read as a list of brand entries, \<open>parseBrands t\<close> is
  \<^verbatim>\<open>JSON.parse(t).brands\<close> (\<open>None\<close> when the key is absent); \<open>Inl\<close> is the exception thrown.
  TypeScript's cast to \<^verbatim>\<open>BrandAnalysis[]\<close> checks nothing; the model assumes the entries have
  the declared shape.

  \<open>stringifyThrows e\<close> is the exception that
  \<^verbatim>\<open>JSON.stringify(e, Object.getOwnPropertyNames(e), 2)\<close> throws for the Error object \<open>e\<close>, and
  \<open>None\<close> when it returns the text. It throws a TypeError when an own property of \<open>e\<close> holds
  a BigInt or closes a cycle, and it passes on what a \<^verbatim>\<open>toJSON\<close> method throws. The errors the
  repository makes itself (\<^verbatim>\<open>new Error\<close>, \<^verbatim>\<open>APIError\<close>) have a stack, a message, a name and a
  status only and always serialise; an error made by the Gemini client or by \<^verbatim>\<open>fetch\<close> can
  carry anything. The model keeps the class and the message of an Error object and not its
  other properties, so \<open>stringifyThrows\<close> answers for the error objects of one run as their
  class and message tell them apart.
\<close>

record json_lib =
  parseArray :: "string \<Rightarrow> js_error + brand_analysis list"
  parseBrands :: "string \<Rightarrow> js_error + brand_analysis list option"
  stringifyThrows :: "js_error \<Rightarrow> js_error option"

section \<open>The HTTP helper\<close>

text \<open>
  \<^verbatim>\<open>genericAIFetch\<close> (lines 84-110). The network answers in one of four ways.
  \<open>FetchRejects e\<close>: \<^verbatim>\<open>fetch\<close> rejects with \<open>e\<close> (or the handling of the response throws
  \<open>e\<close>), inside the \<^verbatim>\<open>try\<close> block, so the \<^verbatim>\<open>catch\<close> block sees it and replaces a TypeError
  \<^verbatim>\<open>Failed to fetch\<close>. \<open>HttpError st msg\<close>: a
  response that is not ok, \<open>msg\<close> being the body's \<^verbatim>\<open>error.message\<close> or else the status text.
  \<open>HttpOk body\<close>: a response that is ok and whose body parses. \<open>BodyRejects e\<close>: a response
  that is ok and whose \<^verbatim>\<open>response.json()\<close> rejects with \<open>e\<close>; line 102 returns that promise
  without awaiting it, so the rejection passes the \<^verbatim>\<open>catch\<close> block by and reaches the caller
  as it is.
\<close>

datatype 'a call = Fails thrown | Replies 'a

datatype 'a http_result = FetchRejects thrown | HttpError int string | HttpOk 'a | BodyRejects thrown

definition networkErrorMessage :: "string \<Rightarrow> string" where
  "networkErrorMessage hostname =
     ''Network Error: Failed to connect to '' @ hostname @
     ''. Please check your internet connection and any firewalls or browser extensions (like ad-blockers) that might be blocking the request.''"

definition genericAIFetch :: "string \<Rightarrow> 'a http_result \<Rightarrow> 'a call" where
  "genericAIFetch hostname r =
     (case r of
        HttpOk body \<Rightarrow> Replies body
      | HttpError st msg \<Rightarrow>
          (if st = 401
           then Fails (ErrorObject (JsError (APIError 401) ''Authentication failed. Please check your API key.''))
           else Fails (ErrorObject (JsError (APIError st) msg)))
      | FetchRejects e \<Rightarrow>
          (if instanceofTypeError e \<and> messageOf e = Some ''Failed to fetch''
           then Fails (ErrorObject (JsError GenericError (networkErrorMessage hostname)))
           else Fails e)
      | BodyRejects e \<Rightarrow> Fails e)"

text \<open>
  \<^verbatim>\<open>Promise.all\<close> over the question calls: the answers in question order, or the rejection.
  The calls run concurrently; when several fail, the model reports the first in question
  order, and it records the raw payloads in question order.
\<close>

fun collect :: "'a call list \<Rightarrow> thrown + 'a list" where
  "collect [] = Inr []"
| "collect (Fails e # cs) = Inl e"
| "collect (Replies r # cs) = (case collect cs of Inl e \<Rightarrow> Inl e | Inr rs \<Rightarrow> Inr (r # rs))"

section \<open>The provider adapters\<close>

text \<open>
  Each adapter makes a first call with the prompt, an analysis call, and one call per
  additional question. What the network answers to the calls of one adapter invocation is
  a script; the requests themselves (prompt texts, model names, keys) leave the program and
  are not part of the model, so the replies are arbitrary. The Gemini client's calls settle
  directly; the other adapters go through \<open>genericAIFetch\<close>.
\<close>

record gemini_script =
  gPrimary :: "gemini_reply call"
  gAnalysis :: "gemini_reply call"
  gQuestions :: "nat \<Rightarrow> gemini_reply call"

record openai_script =
  oPrimary :: "chat_reply http_result"
  oAnalysis :: "chat_reply http_result"
  oQuestions :: "nat \<Rightarrow> chat_reply http_result"

record websearch_script =
  wPrimary :: "websearch_reply http_result"
  wAnalysis :: "websearch_reply http_result"
  wQuestions :: "nat \<Rightarrow> websearch_reply http_result"

record perplexity_script =
  pPrimary :: "perplexity_reply http_result"
  pAnalysis :: "chat_reply http_result"
  pQuestions :: "nat \<Rightarrow> chat_reply http_result"

definition usageIn :: "(nat \<times> nat) option \<Rightarrow> nat" where
  "usageIn u = (case u of None \<Rightarrow> 0 | Some (i, out) \<Rightarrow> i)"

definition usageOut :: "(nat \<times> nat) option \<Rightarrow> nat" where
  "usageOut u = (case u of None \<Rightarrow> 0 | Some (i, out) \<Rightarrow> out)"

definition geminiIn :: "gemini_reply \<Rightarrow> nat" where
  "geminiIn r = (case usageMetadata r of None \<Rightarrow> 0 | Some (p, c, t) \<Rightarrow> p)"

definition geminiOut :: "gemini_reply \<Rightarrow> nat" where
  "geminiOut r = (case usageMetadata r of None \<Rightarrow> 0 | Some (p, c, t) \<Rightarrow> c + t)"

definition questionEntries :: "string list \<Rightarrow> raw_data list \<Rightarrow> raw_entry list" where
  "questionEntries qs ds =
     map (\<lambda>(q, d). \<lparr>entryType = ''additional_question'', entryQuestion = Some q, entryData = d\<rparr>)
       (zip qs ds)"

subsection \<open>Gemini (lines 142-206)\<close>

text \<open>
  The \<^verbatim>\<open>catch\<close> block: an exception whose message mentions an invalid API key is replaced,
  any other is rethrown as it is.
\<close>

definition geminiCatch :: "thrown \<Rightarrow> thrown" where
  "geminiCatch e =
     (let msg = (case e of ErrorObject x \<Rightarrow> message x
                 | NonError s m \<Rightarrow> ''An unknown Gemini error occurred.'')
      in if strIncludes msg ''API key not valid''
         then ErrorObject (JsError GenericError
                ''Authentication failed. Please check if the Google Gemini API key is correct and valid.'')
         else e)"

definition runGeminiAnalysisForPrompt ::
  "json_lib \<Rightarrow> app_config \<Rightarrow> gemini_script \<Rightarrow> provider_response attempt" where
  "runGeminiAnalysisForPrompt lib config net =
     (case gPrimary net of
        Fails e \<Rightarrow> Rejects (geminiCatch e)
      | Replies rawResult \<Rightarrow>
     (case gAnalysis net of
        Fails e \<Rightarrow> Rejects (geminiCatch e)
      | Replies analysisResult \<Rightarrow>
     (case parseArray lib (gText analysisResult) of
        Inl e \<Rightarrow> Rejects (geminiCatch (ErrorObject e))
      | Inr parsed \<Rightarrow>
     (case collect (map (gQuestions net) [0..<length (additionalQuestions config)]) of
        Inl e \<Rightarrow> Rejects (geminiCatch e)
      | Inr answers \<Rightarrow>
          Resolves
            \<lparr>provider = Gemini,
             response = gText rawResult,
             brandAnalyses = Some parsed,
             additionalAnswers =
               map (\<lambda>(q, a). \<lparr>question = q, answer = gText a\<rparr>)
                 (zip (additionalQuestions config) answers),
             rawResponse = Some (CallTrace
               (\<lparr>entryType = ''initial_prompt'', entryQuestion = None,
                  entryData = GeminiData rawResult\<rparr>
                # \<lparr>entryType = ''brand_analysis'', entryQuestion = None,
                  entryData = GeminiData analysisResult\<rparr>
                # questionEntries (additionalQuestions config) (map GeminiData answers))),
             error = None,
             citations = None,
             tokenUsage = Some (geminiIn rawResult + sum_list (map geminiIn answers),
                                geminiOut rawResult + sum_list (map geminiOut answers)),
             analysisTokenUsage = Some (geminiIn analysisResult, geminiOut analysisResult)\<rparr>))))"

subsection \<open>OpenAI (lines 209-267)\<close>

definition runOpenAIAnalysisForPrompt ::
  "json_lib \<Rightarrow> app_config \<Rightarrow> openai_script \<Rightarrow> provider_response attempt" where
  "runOpenAIAnalysisForPrompt lib config net =
     (case genericAIFetch ''api.openai.com'' (oPrimary net) of
        Fails e \<Rightarrow> Rejects e
      | Replies rawData \<Rightarrow>
     (case genericAIFetch ''api.openai.com'' (oAnalysis net) of
        Fails e \<Rightarrow> Rejects e
      | Replies analysisData \<Rightarrow>
     (case parseBrands lib (content analysisData) of
        Inl e \<Rightarrow> Rejects (ErrorObject e)
      | Inr parsed \<Rightarrow>
     (case collect (map (\<lambda>i. genericAIFetch ''api.openai.com'' (oQuestions net i))
              [0..<length (additionalQuestions config)]) of
        Inl e \<Rightarrow> Rejects e
      | Inr answers \<Rightarrow>
          Resolves
            \<lparr>provider = OpenAI,
             response = content rawData,
             brandAnalyses = Some (case parsed of None \<Rightarrow> [] | Some bs \<Rightarrow> bs),
             additionalAnswers =
               map (\<lambda>(q, a). \<lparr>question = q, answer = content a\<rparr>)
                 (zip (additionalQuestions config) answers),
             rawResponse = Some (CallTrace
               (\<lparr>entryType = ''initial_prompt'', entryQuestion = None,
                  entryData = ChatData rawData\<rparr>
                # \<lparr>entryType = ''brand_analysis'', entryQuestion = None,
                  entryData = ChatData analysisData\<rparr>
                # questionEntries (additionalQuestions config) (map ChatData answers))),
             error = None,
             citations = None,
             tokenUsage = Some (usageIn (usage rawData) + sum_list (map (usageIn \<circ> usage) answers),
                                usageOut (usage rawData) + sum_list (map (usageOut \<circ> usage) answers)),
             analysisTokenUsage =
               Some (usageIn (usage analysisData), usageOut (usage analysisData))\<rparr>))))"

subsection \<open>OpenAI web search (lines 270-380)\<close>

text \<open>The loop over the message's annotations, \<open>n\<close> being \<^verbatim>\<open>citationIndex\<close>.\<close>

fun annotationCitations :: "nat \<Rightarrow> annotation list \<Rightarrow> citation list" where
  "annotationCitations n [] = []"
| "annotationCitations n (a # rest) =
     (if annotationType a = Some ''url_citation'' \<and> truthy (citationUrl a)
      then \<lparr>index = n, url = (case citationUrl a of Some u \<Rightarrow> u | None \<Rightarrow> []),
            title = citationTitle a\<rparr> # annotationCitations (n + 1) rest
      else annotationCitations n rest)"

text \<open>
  \<^verbatim>\<open>!responseText.trim()\<close>: the text has white space only (the ASCII white space characters;
  a string here is a list of bytes).
\<close>

definition isBlank :: "string \<Rightarrow> bool" where
  "isBlank s = list_all (\<lambda>c. c \<in> set [CHR 0x20, CHR 0x09, CHR 0x0A, CHR 0x0B, CHR 0x0C, CHR 0x0D]) s"

definition messageText :: "websearch_reply \<Rightarrow> string option" where
  "messageText r = (case wsMessage r of None \<Rightarrow> None | Some m \<Rightarrow> messageContent m)"

definition runOpenAIWebSearchAnalysisForPrompt ::
  "json_lib \<Rightarrow> app_config \<Rightarrow> websearch_script \<Rightarrow> provider_response attempt" where
  "runOpenAIWebSearchAnalysisForPrompt lib config net =
     (case genericAIFetch ''api.openai.com'' (wPrimary net) of
        Fails e \<Rightarrow> Rejects e
      | Replies rawData \<Rightarrow>
     (case wsMessage rawData of
        None \<Rightarrow> Rejects (ErrorObject (JsError GenericError
                  ''Invalid response structure from OpenAI Chat Completions API.''))
      | Some mainResponseMessage \<Rightarrow>
     (let found = (case annotations mainResponseMessage of
                     None \<Rightarrow> [] | Some anns \<Rightarrow> annotationCitations 1 anns);
          text0 = (case messageContent mainResponseMessage of None \<Rightarrow> [] | Some c \<Rightarrow> c);
          responseText = (if isBlank text0 then ''No text summary provided by the model.'' else text0)
      in
     (case genericAIFetch ''api.openai.com'' (wAnalysis net) of
        Fails e \<Rightarrow> Rejects e
      | Replies analysisData \<Rightarrow>
     (case (if truthy (messageText analysisData)
            then (case parseBrands lib (case messageText analysisData of Some c \<Rightarrow> c | None \<Rightarrow> []) of
                    Inl e \<Rightarrow> Inl e
                  | Inr parsed \<Rightarrow> Inr (case parsed of None \<Rightarrow> [] | Some bs \<Rightarrow> bs))
            else Inr []) of
        Inl e \<Rightarrow> Rejects (ErrorObject e)
      | Inr brands \<Rightarrow>
     (case collect (map (\<lambda>i. genericAIFetch ''api.openai.com'' (wQuestions net i))
              [0..<length (additionalQuestions config)]) of
        Inl e \<Rightarrow> Rejects e
      | Inr answers \<Rightarrow>
          Resolves
            \<lparr>provider = OpenAIWebSearch,
             response = responseText,
             brandAnalyses = Some brands,
             additionalAnswers =
               map (\<lambda>(q, a). \<lparr>question = q,
                     answer = (if truthy (messageText a)
                               then (case messageText a of Some c \<Rightarrow> c | None \<Rightarrow> [])
                               else ''Could not generate an answer.'')\<rparr>)
                 (zip (additionalQuestions config) answers),
             rawResponse = Some (CallTrace
               (\<lparr>entryType = ''initial_web_search'', entryQuestion = None,
                  entryData = WebSearchData rawData\<rparr>
                # \<lparr>entryType = ''brand_analysis'', entryQuestion = None,
                  entryData = WebSearchData analysisData\<rparr>
                # questionEntries (additionalQuestions config) (map WebSearchData answers))),
             error = None,
             citations = Some found,
             tokenUsage = Some (usageIn (wsUsage rawData) + sum_list (map (usageIn \<circ> wsUsage) answers),
                                usageOut (wsUsage rawData) + sum_list (map (usageOut \<circ> wsUsage) answers)),
             analysisTokenUsage =
               Some (usageIn (wsUsage analysisData), usageOut (wsUsage analysisData))\<rparr>))))))"

subsection \<open>Perplexity (lines 384-465)\<close>

text \<open>
  Citation parsing (lines 401-422). The state of the two \<^verbatim>\<open>forEach\<close> loops is the list
  \<^verbatim>\<open>citations\<close>, the set \<^verbatim>\<open>foundUrls\<close> and the counter \<^verbatim>\<open>citationIndex\<close>.
\<close>

type_synonym cite_state = "citation list \<times> string set \<times> nat"

fun citeUrl :: "cite_state \<Rightarrow> string option \<Rightarrow> cite_state" where
  "citeUrl (cs, foundUrls, citationIndex) None = (cs, foundUrls, citationIndex)"
| "citeUrl (cs, foundUrls, citationIndex) (Some u) =
     (if u \<notin> foundUrls
      then (cs @ [\<lparr>index = citationIndex, url = u, title = Some []\<rparr>],
            insert u foundUrls, citationIndex + 1)
      else (cs, foundUrls, citationIndex))"

fun citeResult :: "cite_state \<Rightarrow> search_result \<Rightarrow> cite_state" where
  "citeResult (cs, foundUrls, citationIndex) r =
     (case resultUrl r of
        None \<Rightarrow> (cs, foundUrls, citationIndex)
      | Some u \<Rightarrow>
          (if u \<notin> foundUrls
           then (cs @ [\<lparr>index = citationIndex, url = u,
                        title = Some (case resultTitle r of None \<Rightarrow> [] | Some t \<Rightarrow> t)\<rparr>],
                 insert u foundUrls, citationIndex + 1)
           else (cs, foundUrls, citationIndex)))"

definition parseCitations :: "perplexity_reply \<Rightarrow> citation list" where
  "parseCitations rawData =
     (let st1 = foldl citeUrl ([], {}, 1)
                  (case pplxCitations rawData of None \<Rightarrow> [] | Some us \<Rightarrow> us);
          st2 = foldl citeResult st1
                  (case searchResults rawData of None \<Rightarrow> [] | Some rs \<Rightarrow> rs)
      in fst st2)"

text \<open>
  The pattern of line 438 is a three-backtick fence opened by \<^verbatim>\<open>json\<close> and a newline, a
  lazily matched body, and a newline followed by three backticks. \<^verbatim>\<open>String.match\<close> returns the leftmost match, and
  for that start the shortest body. \<open>matchJsonFence\<close> returns the captured body.
\<close>

definition fenceOpen :: string where
  "fenceOpen = [CHR 0x60, CHR 0x60, CHR 0x60] @ ''json'' @ [CHR 0x0A]"

definition fenceClose :: string where
  "fenceClose = [CHR 0x0A, CHR 0x60, CHR 0x60, CHR 0x60]"

fun beforeFirst :: "string \<Rightarrow> string \<Rightarrow> string option" where
  "beforeFirst needle [] = (if needle = [] then Some [] else None)"
| "beforeFirst needle (c # s) =
     (if prefix needle (c # s) then Some []
      else map_option ((#) c) (beforeFirst needle s))"

fun matchJsonFence :: "string \<Rightarrow> string option" where
  "matchJsonFence [] = None"
| "matchJsonFence (c # s) =
     (if prefix fenceOpen (c # s)
      then (case beforeFirst fenceClose (drop (length fenceOpen) (c # s)) of
              Some body \<Rightarrow> Some body
            | None \<Rightarrow> matchJsonFence s)
      else matchJsonFence s)"

text \<open>What it is for a text to contain a fenced json block, said without the matcher.\<close>

definition hasJsonFence :: "string \<Rightarrow> bool" where
  "hasJsonFence s = (\<exists>a b c. s = a @ fenceOpen @ b @ fenceClose @ c)"

definition runPerplexityAnalysisForPrompt ::
  "json_lib \<Rightarrow> app_config \<Rightarrow> perplexity_script \<Rightarrow> provider_response attempt" where
  "runPerplexityAnalysisForPrompt lib config net =
     (case genericAIFetch ''api.perplexity.ai'' (pPrimary net) of
        Fails e \<Rightarrow> Rejects e
      | Replies rawData \<Rightarrow>
     (case genericAIFetch ''api.perplexity.ai'' (pAnalysis net) of
        Fails e \<Rightarrow> Rejects e
      | Replies analysisData \<Rightarrow>
     (case (case matchJsonFence (content analysisData) of
              None \<Rightarrow> Inr (Some [])
            | Some body \<Rightarrow> parseBrands lib body) of
        Inl e \<Rightarrow> Rejects (ErrorObject e)
      | Inr brands \<Rightarrow>
     (case collect (map (\<lambda>i. genericAIFetch ''api.perplexity.ai'' (pQuestions net i))
              [0..<length (additionalQuestions config)]) of
        Inl e \<Rightarrow> Rejects e
      | Inr answers \<Rightarrow>
          Resolves
            \<lparr>provider = Perplexity,
             response = pplxContent rawData,
             brandAnalyses = brands,
             additionalAnswers =
               map (\<lambda>(q, a). \<lparr>question = q, answer = content a\<rparr>)
                 (zip (additionalQuestions config) answers),
             rawResponse = Some (CallTrace
               (\<lparr>entryType = ''initial_prompt'', entryQuestion = None,
                  entryData = PerplexityData rawData\<rparr>
                # \<lparr>entryType = ''brand_analysis'', entryQuestion = None,
                  entryData = ChatData analysisData\<rparr>
                # questionEntries (additionalQuestions config) (map ChatData answers))),
             error = None,
             citations = Some (parseCitations rawData),
             tokenUsage = Some (usageIn (pplxUsage rawData) + sum_list (map (usageIn \<circ> usage) answers),
                                usageOut (pplxUsage rawData) + sum_list (map (usageOut \<circ> usage) answers)),
             analysisTokenUsage =
               Some (usageIn (usage analysisData), usageOut (usage analysisData))\<rparr>))))"

section \<open>The client initializer and the task tracker\<close>

text \<open>
  \<^verbatim>\<open>initializeClients\<close> (lines 61-80). The Gemini client is built from its key and is
  represented by it; the other two clients are the keys themselves.
\<close>

record llm_clients =
  geminiClient :: "string option"
  openaiClient :: "string option"
  perplexityClient :: "string option"

definition initializeClients :: "app_config \<Rightarrow> js_error + llm_clients" where
  "initializeClients config =
     (if Gemini \<in> set (providers config) \<and> \<not> truthy (geminiKey (apiKeys config))
      then Inl (JsError GenericError ''Google Gemini API Key is missing.'')
      else Inr
        \<lparr>geminiClient =
           (if Gemini \<in> set (providers config) then geminiKey (apiKeys config) else None),
         openaiClient =
           (if (OpenAI \<in> set (providers config) \<or> OpenAIWebSearch \<in> set (providers config))
               \<and> truthy (openaiKey (apiKeys config))
            then openaiKey (apiKeys config) else None),
         perplexityClient =
           (if Perplexity \<in> set (providers config) \<and> truthy (perplexityKey (apiKeys config))
            then perplexityKey (apiKeys config) else None)\<rparr>)"

text \<open>
  A task (\<^verbatim>\<open>Task\<close> in \<^verbatim>\<open>types.ts\<close>). Its id is the string \<^verbatim>\<open>prompt-<pIndex>-<provider>\<close>;
  two such strings are equal exactly when the index and the provider are, so the id is
  represented by that pair. The fields \<^verbatim>\<open>id\<close> and \<^verbatim>\<open>error\<close> are \<open>taskId\<close> and \<open>taskError\<close>
  here, and the status \<^verbatim>\<open>error\<close> is \<open>error_status\<close>: the names are taken by the identity
  function and by the \<open>error\<close> field of a provider's result. A string is a list of bytes,
  so \<^verbatim>\<open>prompt.length\<close> counts bytes where JavaScript counts UTF-16 units; the two agree
  on ASCII prompts, and only the description of a task depends on it.
\<close>

datatype status = pending | in_progress | completed | error_status

type_synonym task_id = "nat \<times> provider"

record task =
  taskId :: task_id
  description :: string
  status :: status
  taskError :: "string option"
  retries :: "nat option"

fun providerBaseNames :: "provider \<Rightarrow> string" where
  "providerBaseNames Gemini = ''Google Gemini''"
| "providerBaseNames OpenAI = ''OpenAI''"
| "providerBaseNames OpenAIWebSearch = ''OpenAI Web Search''"
| "providerBaseNames Perplexity = ''Perplexity''"

definition describeTask :: "app_config \<Rightarrow> string \<Rightarrow> provider \<Rightarrow> string" where
  "describeTask config p prov =
     (let modelName = (if truthy (models config prov)
                       then (case models config prov of Some m \<Rightarrow> m | None \<Rightarrow> [])
                       else ''default'');
          shortPrompt = (if length p > 40 then take 40 p @ ''...'' else p)
      in ''Analyzing '' @ [CHR 0x22] @ shortPrompt @ [CHR 0x22] @ '' with ''
         @ providerBaseNames prov @ '' ('' @ modelName @ '')'')"

definition buildTasks :: "app_config \<Rightarrow> task list" where
  "buildTasks config =
     concat (map (\<lambda>(pIndex, p).
               map (\<lambda>prov.
                     \<lparr>taskId = (pIndex, prov), description = describeTask config p prov,
                      status = pending, taskError = None, retries = None\<rparr>)
                   (providers config))
             (enumerate 0 (prompts config)))"

text \<open>
  The tracker is the array \<^verbatim>\<open>tasks\<close> together with what \<^verbatim>\<open>onProgress\<close> has been handed so
  far: each call \<^verbatim>\<open>onProgress([...tasks])\<close> appends the array as it is at that moment.
  (The copies share their task objects with the array; what an observer sees when it
  reads an old copy later is not modelled.)
\<close>

record tracker =
  tasks :: "task list"
  emitted :: "task list list"

fun findIndex :: "('a \<Rightarrow> bool) \<Rightarrow> 'a list \<Rightarrow> nat option" where
  "findIndex P [] = None"
| "findIndex P (x # xs) = (if P x then Some 0 else map_option Suc (findIndex P xs))"

definition updateTaskStatus ::
  "task_id \<Rightarrow> status \<Rightarrow> string option \<Rightarrow> nat option \<Rightarrow> tracker \<Rightarrow> tracker" where
  "updateTaskStatus tid st err rt tr =
     (case findIndex (\<lambda>t. taskId t = tid) (tasks tr) of
        None \<Rightarrow> tr
      | Some taskIndex \<Rightarrow>
          (let old = tasks tr ! taskIndex;
               new = old\<lparr>status := st,
                          taskError := (if truthy err then err else taskError old),
                          retries := (if rt \<noteq> None then rt else retries old)\<rparr>;
               ts = (tasks tr)[taskIndex := new]
           in \<lparr>tasks = ts, emitted = emitted tr @ [ts]\<rparr>))"

section \<open>The orchestrator\<close>

text \<open>
  \<^verbatim>\<open>runAnalysis\<close> (lines 468-555). The network of a run gives the script of every adapter
  invocation: \<open>geminiNet net pIndex i k\<close> is what the network answers when the unit of prompt
  \<open>pIndex\<close> and of the provider at position \<open>i\<close> of the selection runs its attempt \<open>k\<close>.
\<close>

record net =
  geminiNet :: "nat \<Rightarrow> nat \<Rightarrow> nat \<Rightarrow> gemini_script"
  openaiNet :: "nat \<Rightarrow> nat \<Rightarrow> nat \<Rightarrow> openai_script"
  websearchNet :: "nat \<Rightarrow> nat \<Rightarrow> nat \<Rightarrow> websearch_script"
  perplexityNet :: "nat \<Rightarrow> nat \<Rightarrow> nat \<Rightarrow> perplexity_script"

text \<open>The guards of the \<^verbatim>\<open>switch\<close> (lines 504-524): the error thrown, if any.\<close>

fun dispatchGuard :: "app_config \<Rightarrow> llm_clients \<Rightarrow> provider \<Rightarrow> js_error option" where
  "dispatchGuard config clients Gemini =
     (if geminiClient clients = None \<or> \<not> truthy (models config Gemini)
      then Some (JsError GenericError ''Gemini client not initialized properly.'') else None)"
| "dispatchGuard config clients OpenAI =
     (if \<not> truthy (openaiClient clients) \<or> \<not> truthy (models config OpenAI)
      then Some (JsError GenericError ''OpenAI client not initialized properly.'') else None)"
| "dispatchGuard config clients OpenAIWebSearch =
     (if \<not> truthy (openaiClient clients) \<or> \<not> truthy (models config OpenAIWebSearch)
      then Some (JsError GenericError ''OpenAI Web Search client not initialized properly.'')
      else None)"
| "dispatchGuard config clients Perplexity =
     (if \<not> truthy (perplexityClient clients) \<or> \<not> truthy (models config Perplexity)
      then Some (JsError GenericError ''Perplexity client not initialized properly.'') else None)"

fun providerFunction ::
  "json_lib \<Rightarrow> app_config \<Rightarrow> net \<Rightarrow> nat \<Rightarrow> nat \<Rightarrow> provider \<Rightarrow> nat \<Rightarrow> provider_response attempt" where
  "providerFunction lib config nw pIndex i Gemini k =
     runGeminiAnalysisForPrompt lib config (geminiNet nw pIndex i k)"
| "providerFunction lib config nw pIndex i OpenAI k =
     runOpenAIAnalysisForPrompt lib config (openaiNet nw pIndex i k)"
| "providerFunction lib config nw pIndex i OpenAIWebSearch k =
     runOpenAIWebSearchAnalysisForPrompt lib config (websearchNet nw pIndex i k)"
| "providerFunction lib config nw pIndex i Perplexity k =
     runPerplexityAnalysisForPrompt lib config (perplexityNet nw pIndex i k)"

text \<open>The \<open>onRetry\<close> callback of lines 529-532, run for each \<open>OnRetry\<close> event of the engine.\<close>

fun onRetryEvent :: "task_id \<Rightarrow> tracker \<Rightarrow> event \<Rightarrow> tracker" where
  "onRetryEvent tid tr (OnRetry e k) = updateTaskStatus tid in_progress None (Some k) tr"
| "onRetryEvent tid tr ev = tr"

text \<open>
  The part of a unit's callback after the guard (lines 526-547): the adapter runs through
  the retry engine with 2 retries, then the task is settled and the unit's result is
  returned. The \<^verbatim>\<open>catch\<close> block first marks the task \<^verbatim>\<open>error\<close> and then serialises the
  exception (line 545). Nothing guards that call: when \<^verbatim>\<open>JSON.stringify\<close> throws, the
  exception leaves the \<^verbatim>\<open>catch\<close> block and the unit's promise rejects (\<open>Inl\<close>). So it does
  when the engine threw \<^verbatim>\<open>null\<close>, on which \<^verbatim>\<open>Object.getOwnPropertyNames\<close> throws a TypeError.
\<close>

text \<open>The result synthesised for a unit whose adapter threw (line 546).\<close>

definition errorResponse :: "provider \<Rightarrow> js_error \<Rightarrow> provider_response" where
  "errorResponse prov e =
     \<lparr>provider = prov, response = [], brandAnalyses = Some [], additionalAnswers = [],
      rawResponse = Some (ErrorDump e), error = Some (message e), citations = None,
      tokenUsage = None, analysisTokenUsage = None\<rparr>"

definition runTask ::
  "json_lib \<Rightarrow> app_config \<Rightarrow> net \<Rightarrow> nat \<Rightarrow> nat \<Rightarrow> provider \<Rightarrow> tracker
     \<Rightarrow> tracker \<times> (js_error + provider_response)" where
  "runTask lib config nw pIndex i prov tr =
     (let tid = (pIndex, prov);
          (evs, out) = retryWithBackoff (providerFunction lib config nw pIndex i prov) 2;
          tr1 = foldl (onRetryEvent tid) tr evs
      in case out of
           Returned r \<Rightarrow>
             (if truthy (error r)
              then (updateTaskStatus tid error_status (error r) None tr1, Inr r)
              else (updateTaskStatus tid completed None None tr1, Inr r))
         | Threw e \<Rightarrow>
             (let tr2 = updateTaskStatus tid error_status (Some (message e)) None tr1
              in case stringifyThrows lib e of
                   Some t \<Rightarrow> (tr2, Inl t)
                 | None \<Rightarrow> (tr2, Inr (errorResponse prov e)))
         | ThrewNull \<Rightarrow>
             (updateTaskStatus tid error_status (Some ''An unknown error occurred.'') None tr1,
              Inl (JsError TypeError ''Cannot convert undefined or null to object'')))"

text \<open>
  One iteration of the loop over the prompts (lines 497-552). \<^verbatim>\<open>providers.map\<close> starts every
  unit's callback in selection order, and each runs without interruption up to its first
  network call: it marks its task \<^verbatim>\<open>in_progress\<close> and passes or fails its guard. A failed
  guard rejects the unit's promise at once, so \<^verbatim>\<open>Promise.all\<close>, and with it the run, rejects
  with the error of the first failing guard before any network call returns. Otherwise
  the units settle concurrently; each touches its own task only, and the model lets them
  settle in selection order. \<^verbatim>\<open>Promise.all\<close> returns the results in selection order. A
  unit whose promise rejects rejects \<^verbatim>\<open>Promise.all\<close> and the run at once; the snapshots of
  the run end there.
\<close>

fun firstGuardError :: "app_config \<Rightarrow> llm_clients \<Rightarrow> provider list \<Rightarrow> js_error option" where
  "firstGuardError config clients [] = None"
| "firstGuardError config clients (prov # rest) =
     (case dispatchGuard config clients prov of
        Some e \<Rightarrow> Some e
      | None \<Rightarrow> firstGuardError config clients rest)"

fun runTasks ::
  "json_lib \<Rightarrow> app_config \<Rightarrow> net \<Rightarrow> nat \<Rightarrow> (nat \<times> provider) list \<Rightarrow> tracker
     \<Rightarrow> tracker \<times> (js_error + provider_response list)" where
  "runTasks lib config nw pIndex [] tr = (tr, Inr [])"
| "runTasks lib config nw pIndex ((i, prov) # rest) tr =
     (case runTask lib config nw pIndex i prov tr of
        (tr1, Inl e) \<Rightarrow> (tr1, Inl e)
      | (tr1, Inr r) \<Rightarrow>
          (case runTasks lib config nw pIndex rest tr1 of
             (tr2, Inl e) \<Rightarrow> (tr2, Inl e)
           | (tr2, Inr rs) \<Rightarrow> (tr2, Inr (r # rs))))"

definition runPrompt ::
  "json_lib \<Rightarrow> app_config \<Rightarrow> llm_clients \<Rightarrow> net \<Rightarrow> nat \<Rightarrow> tracker
     \<Rightarrow> tracker \<times> (js_error + provider_response list)" where
  "runPrompt lib config clients nw pIndex tr =
     (let tr1 = foldl (\<lambda>t prov. updateTaskStatus (pIndex, prov) in_progress None None t) tr
                  (providers config)
      in case firstGuardError config clients (providers config) of
           Some e \<Rightarrow> (tr1, Inl e)
         | None \<Rightarrow> runTasks lib config nw pIndex (enumerate 0 (providers config)) tr1)"

fun runPrompts ::
  "json_lib \<Rightarrow> app_config \<Rightarrow> llm_clients \<Rightarrow> net \<Rightarrow> (nat \<times> string) list \<Rightarrow> tracker
     \<Rightarrow> analysis_result list \<Rightarrow> tracker \<times> (js_error + analysis_result list)" where
  "runPrompts lib config clients nw [] tr resultsByPrompt = (tr, Inr resultsByPrompt)"
| "runPrompts lib config clients nw ((pIndex, p) # rest) tr resultsByPrompt =
     (case runPrompt lib config clients nw pIndex tr of
        (tr1, Inl e) \<Rightarrow> (tr1, Inl e)
      | (tr1, Inr rs) \<Rightarrow>
          runPrompts lib config clients nw rest tr1
            (resultsByPrompt @ [\<lparr>prompt = p, providerResponses = rs\<rparr>]))"

text \<open>
  The run: the snapshots handed to \<^verbatim>\<open>onProgress\<close> until the returned promise settles, and
  how it settles (\<open>Inl\<close>: rejected with that error, \<open>Inr\<close>: resolved with the results).
\<close>

definition runAnalysis ::
  "json_lib \<Rightarrow> app_config \<Rightarrow> net \<Rightarrow> task list list \<times> (js_error + analysis_result list)" where
  "runAnalysis lib config nw =
     (case initializeClients config of
        Inl e \<Rightarrow> ([], Inl e)
      | Inr clients \<Rightarrow>
          (let tasks0 = buildTasks config;
               (tr, res) = runPrompts lib config clients nw (enumerate 0 (prompts config))
                             \<lparr>tasks = tasks0, emitted = [tasks0]\<rparr> []
           in (emitted tr, res)))"

section \<open>Notions used in the statements\<close>

text \<open>
  The definitions below are not translations of code. They say what the theorems are
  about: the configurations that pass validation, how a unit of work settles, the legal
  moves of the task tracker, the urls a Perplexity reply exposes, brand completeness, an
  error raised again unchanged, and the match of the fence pattern.
\<close>

fun credentialOf :: "app_config \<Rightarrow> provider \<Rightarrow> string option" where
  "credentialOf config Gemini = geminiKey (apiKeys config)"
| "credentialOf config OpenAI = openaiKey (apiKeys config)"
| "credentialOf config OpenAIWebSearch = openaiKey (apiKeys config)"
| "credentialOf config Perplexity = perplexityKey (apiKeys config)"

text \<open>Every selected provider has a credential and a model identifier (section 3).\<close>

definition configured :: "app_config \<Rightarrow> bool" where
  "configured config =
     list_all (\<lambda>prov. truthy (credentialOf config prov) \<and> truthy (models config prov))
       (providers config)"

text \<open>
  How the unit of prompt \<open>pIndex\<close> and of the provider \<open>prov\<close> at position \<open>i\<close> settles once
  it has passed its guard: with the adapter's result, with the result synthesised from
  the exception the retry engine threw, or, when that exception does not serialise, with a
  rejection.
\<close>

definition unitOutcome ::
  "json_lib \<Rightarrow> app_config \<Rightarrow> net \<Rightarrow> nat \<Rightarrow> nat \<Rightarrow> provider \<Rightarrow> js_error + provider_response" where
  "unitOutcome lib config nw pIndex i prov =
     (case snd (retryWithBackoff (providerFunction lib config nw pIndex i prov) 2) of
        Returned r \<Rightarrow> Inr r
      | Threw e \<Rightarrow>
          (case stringifyThrows lib e of Some t \<Rightarrow> Inl t | None \<Rightarrow> Inr (errorResponse prov e))
      | ThrewNull \<Rightarrow> Inl (JsError TypeError ''Cannot convert undefined or null to object''))"

text \<open>
  The lifecycle of section 4.2. One step of one task: \<^verbatim>\<open>pending\<close> to \<^verbatim>\<open>in_progress\<close>;
  \<^verbatim>\<open>in_progress\<close> again with the retry counter one higher (a counter not yet set counts as
  0); or \<^verbatim>\<open>in_progress\<close> to \<^verbatim>\<open>completed\<close> or \<^verbatim>\<open>error\<close>. Nothing leaves \<^verbatim>\<open>completed\<close> or
  \<^verbatim>\<open>error\<close>. A legal move of the tracker changes exactly one task, by one such step.
\<close>

definition legalStep :: "task \<Rightarrow> task \<Rightarrow> bool" where
  "legalStep old new =
     (taskId new = taskId old \<and> description new = description old \<and>
      ((status old = pending \<and> status new = in_progress \<and> retries new = retries old)
       \<or> (status old = in_progress \<and> status new = in_progress
           \<and> retries new = Some (Suc (case retries old of None \<Rightarrow> 0 | Some c \<Rightarrow> c)))
       \<or> (status old = in_progress \<and> (status new = completed \<or> status new = error_status)
           \<and> retries new = retries old)))"

definition legalMove :: "task list \<Rightarrow> task list \<Rightarrow> bool" where
  "legalMove old new =
     (length new = length old \<and>
      (\<exists>j < length old. legalStep (old ! j) (new ! j) \<and>
         (\<forall>i < length old. i \<noteq> j \<longrightarrow> new ! i = old ! i)))"

text \<open>
  The urls of a Perplexity reply that pass the \<^verbatim>\<open>typeof\<close> tests, field by field, and the
  first occurrences of a list in their order.
\<close>

fun stringItems :: "string option list \<Rightarrow> string list" where
  "stringItems [] = []"
| "stringItems (None # items) = stringItems items"
| "stringItems (Some u # items) = u # stringItems items"

definition citedUrls :: "perplexity_reply \<Rightarrow> string list" where
  "citedUrls rawData = stringItems (case pplxCitations rawData of None \<Rightarrow> [] | Some us \<Rightarrow> us)"

definition resultUrls :: "perplexity_reply \<Rightarrow> string list" where
  "resultUrls rawData =
     stringItems (map resultUrl (case searchResults rawData of None \<Rightarrow> [] | Some rs \<Rightarrow> rs))"

definition firstOccurrences :: "'a list \<Rightarrow> 'a list" where
  "firstOccurrences xs = rev (remdups (rev xs))"

text \<open>
  The invariant of the two citation loops: after the urls \<open>seen\<close> the citations hold their
  first occurrences, numbered from 1, the set holds them all, and the counter is one
  ahead.
\<close>

definition citeInv :: "string list \<Rightarrow> cite_state \<Rightarrow> bool" where
  "citeInv seen st =
     (case st of (cs, foundUrls, citationIndex) \<Rightarrow>
        map url cs = firstOccurrences seen \<and> foundUrls = set seen \<and>
        citationIndex = Suc (length cs) \<and> map index cs = [1..<Suc (length cs)])"

text \<open>
  Brand completeness as section 3 states it: every brand of the configuration (the
  \<^verbatim>\<open>allBrands\<close> of the adapters) has exactly one entry.
\<close>

definition allBrands :: "app_config \<Rightarrow> string list" where
  "allBrands config = clientName config # competitors config"

definition brandComplete :: "app_config \<Rightarrow> brand_analysis list \<Rightarrow> bool" where
  "brandComplete config bs =
     (\<forall>b \<in> set (allBrands config). length (filter (\<lambda>entry. brandName entry = b) bs) = 1)"

text \<open>
  The state of a task as the tracker holds it: the status and the retry counter of the
  first task with the given id, which is the task \<open>updateTaskStatus\<close> updates. A tracker is
  well tracked when it has emitted its current array last and every snapshot it emitted
  came from the one before by a legal move.
\<close>

definition taskState :: "tracker \<Rightarrow> task_id \<Rightarrow> (status \<times> nat option) option" where
  "taskState tr tid =
     map_option (\<lambda>t. (status t, retries t)) (find (\<lambda>t. taskId t = tid) (tasks tr))"

definition wellTracked :: "tracker \<Rightarrow> bool" where
  "wellTracked tr =
     (emitted tr \<noteq> [] \<and> last (emitted tr) = tasks tr \<and> successively legalMove (emitted tr))"

text \<open>
  What it is for the retry engine to raise again, unchanged, the value \<open>x\<close> with which an
  attempt failed: the engine throws, and what it throws is \<open>x\<close> itself.
\<close>

definition rethrownUnchanged :: "thrown \<Rightarrow> 'a outcome \<Rightarrow> bool" where
  "rethrownUnchanged x out = (case out of Threw e \<Rightarrow> x = ErrorObject e | Returned v \<Rightarrow> False
                              | ThrewNull \<Rightarrow> False)"

text \<open>
  The match of the pattern of line 438, said without the matcher. \<open>fencedAt s a body\<close>: in
  \<open>s\<close>, after the text \<open>a\<close>, stand the opening fence, \<open>body\<close> and the closing fence.
  \<^verbatim>\<open>String.match\<close> takes the leftmost place where the pattern matches, and the lazy
  quantifier takes the shortest body there.
\<close>

definition fencedAt :: "string \<Rightarrow> string \<Rightarrow> string \<Rightarrow> bool" where
  "fencedAt s a body = (\<exists>c. s = a @ fenceOpen @ body @ fenceClose @ c)"

definition jsonFenceMatch :: "string \<Rightarrow> string \<Rightarrow> bool" where
  "jsonFenceMatch s body =
     (\<exists>a. fencedAt s a body \<and>
        (\<forall>a' body'. fencedAt s a' body' \<longrightarrow>
           length a < length a' \<or> (length a' = length a \<and> length body \<le> length body')))"

text \<open>The errors with which the run rejects a configuration (lines 70 and 506-518).\<close>

definition configurationError :: "js_error \<Rightarrow> bool" where
  "configurationError e =
     (e \<in> set [JsError GenericError ''Google Gemini API Key is missing.'',
               JsError GenericError ''Gemini client not initialized properly.'',
               JsError GenericError ''OpenAI client not initialized properly.'',
               JsError GenericError ''OpenAI Web Search client not initialized properly.'',
               JsError GenericError ''Perplexity client not initialized properly.''])"

subsection \<open>Concrete inputs\<close>

text \<open>
  The scenario of section 8: one prompt, Gemini selected, known brands Acme and Globex, no
  additional questions. The analysis reply of \<open>acmeOnlyScript\<close> reports Acme only;
  \<open>exampleLib\<close> is \<^verbatim>\<open>JSON.parse\<close> on the texts of the example, and it serialises every
  error. On \<open>downNet\<close> every call fails
  with a 503. \<open>noModelConfig\<close> is the scenario without model identifiers, \<open>noKeyConfig\<close>
  the scenario without credentials, \<open>noOpenAIKeyConfig\<close> selects OpenAI instead, with a
  model identifier and no key, and \<open>questionConfig\<close> is the scenario with one additional
  question.
\<close>

definition exampleConfig :: app_config where
  "exampleConfig =
     \<lparr>providers = [Gemini],
      apiKeys = \<lparr>geminiKey = Some ''key'', openaiKey = None, perplexityKey = None\<rparr>,
      models = (\<lambda>prov. if prov = Gemini then Some ''gemini-2.5-flash'' else None),
      clientName = ''Acme'',
      competitors = [''Globex''],
      prompts = [''Who leads PIM software?''],
      additionalQuestions = [],
      broadMatch = False\<rparr>"

definition noModelConfig :: app_config where
  "noModelConfig = exampleConfig\<lparr>models := (\<lambda>prov. None)\<rparr>"

definition noKeyConfig :: app_config where
  "noKeyConfig =
     exampleConfig\<lparr>apiKeys := \<lparr>geminiKey = None, openaiKey = None, perplexityKey = None\<rparr>\<rparr>"

definition noOpenAIKeyConfig :: app_config where
  "noOpenAIKeyConfig =
     exampleConfig\<lparr>providers := [OpenAI], models := (\<lambda>prov. Some ''gpt-4o-mini'')\<rparr>"

definition acme :: brand_analysis where
  "acme = \<lparr>brandName = ''Acme'', mentions = 1, sentiment = ''Positive''\<rparr>"

definition acmeOnlyJson :: string where
  "acmeOnlyJson =
     ''[{'' @ [CHR 0x22] @ ''brandName'' @ [CHR 0x22] @ '':'' @ [CHR 0x22] @ ''Acme'' @ [CHR 0x22]
     @ '','' @ [CHR 0x22] @ ''mentions'' @ [CHR 0x22] @ '':1,''
     @ [CHR 0x22] @ ''sentiment'' @ [CHR 0x22] @ '':'' @ [CHR 0x22] @ ''Positive'' @ [CHR 0x22] @ ''}]''"

definition acmeBrandsJson :: string where
  "acmeBrandsJson = ''{'' @ [CHR 0x22] @ ''brands'' @ [CHR 0x22] @ '':'' @ acmeOnlyJson @ ''}''"

definition exampleLib :: json_lib where
  "exampleLib =
     \<lparr>parseArray = (\<lambda>t. if t = acmeOnlyJson then Inr [acme]
                          else Inl (JsError SyntaxError ''Unexpected end of JSON input'')),
      parseBrands = (\<lambda>t. if t = acmeBrandsJson then Inr (Some [acme])
                          else Inl (JsError SyntaxError ''Unexpected end of JSON input'')),
      stringifyThrows = (\<lambda>e. None)\<rparr>"

definition acmeOnlyScript :: gemini_script where
  "acmeOnlyScript =
     \<lparr>gPrimary = Replies \<lparr>gText = ''Acme is the leader.'', usageMetadata = None\<rparr>,
      gAnalysis = Replies \<lparr>gText = acmeOnlyJson, usageMetadata = None\<rparr>,
      gQuestions = (\<lambda>i. Fails (ErrorObject (JsError GenericError ''no such call'')))\<rparr>"

definition unavailable :: js_error where
  "unavailable = JsError GenericError ''got status: 503 Service Unavailable''"

definition downNet :: net where
  "downNet =
     \<lparr>geminiNet = (\<lambda>pIndex i k.
        \<lparr>gPrimary = Fails (ErrorObject unavailable), gAnalysis = Fails (ErrorObject unavailable),
         gQuestions = (\<lambda>j. Fails (ErrorObject unavailable))\<rparr>),
      openaiNet = (\<lambda>pIndex i k.
        \<lparr>oPrimary = HttpError 503 ''Service Unavailable'',
         oAnalysis = HttpError 503 ''Service Unavailable'',
         oQuestions = (\<lambda>j. HttpError 503 ''Service Unavailable'')\<rparr>),
      websearchNet = (\<lambda>pIndex i k.
        \<lparr>wPrimary = HttpError 503 ''Service Unavailable'',
         wAnalysis = HttpError 503 ''Service Unavailable'',
         wQuestions = (\<lambda>j. HttpError 503 ''Service Unavailable'')\<rparr>),
      perplexityNet = (\<lambda>pIndex i k.
        \<lparr>pPrimary = HttpError 503 ''Service Unavailable'',
         pAnalysis = HttpError 503 ''Service Unavailable'',
         pQuestions = (\<lambda>j. HttpError 503 ''Service Unavailable'')\<rparr>)\<rparr>"

text \<open>
  A Perplexity invocation whose first reply exposes one url in both fields and whose
  analysis reply has no fenced block.
\<close>

definition sharedUrlReply :: perplexity_reply where
  "sharedUrlReply =
     \<lparr>pplxContent = ''Acme leads.'', pplxUsage = None,
      pplxCitations = Some [Some ''https://a.example'', Some ''https://b.example''],
      searchResults = Some [\<lparr>resultUrl = Some ''https://a.example'', resultTitle = Some ''A''\<rparr>,
                            \<lparr>resultUrl = Some ''https://c.example'', resultTitle = None\<rparr>]\<rparr>"

definition unfencedScript :: perplexity_script where
  "unfencedScript =
     \<lparr>pPrimary = HttpOk sharedUrlReply,
      pAnalysis = HttpOk \<lparr>content = ''I found no brands.'', usage = None\<rparr>,
      pQuestions = (\<lambda>i. HttpOk \<lparr>content = ''The text does not say.'', usage = None\<rparr>)\<rparr>"

definition questionConfig :: app_config where
  "questionConfig = exampleConfig\<lparr>additionalQuestions := [''Which brand is the cheapest?'']\<rparr>"

text \<open>
  An operation that rejects, at every attempt, with the plain object \<^verbatim>\<open>{status: 429}\<close>: no
  Error instance, without a \<^verbatim>\<open>message\<close>, and \<^verbatim>\<open>String\<close> of it is \<^verbatim>\<open>[object Object]\<close>.
\<close>

definition rejectsWithObject :: "nat \<Rightarrow> nat attempt" where
  "rejectsWithObject k = Rejects (NonError ''[object Object]'' None)"

text \<open>
  A Perplexity invocation whose analysis reply holds two fenced blocks, the first with the
  object that reports Acme.
\<close>

definition fencedContent :: string where
  "fencedContent =
     ''Here is the analysis:'' @ [CHR 0x0A] @ fenceOpen @ acmeBrandsJson @ fenceClose @ [CHR 0x0A]
     @ ''And once more:'' @ [CHR 0x0A] @ fenceOpen @ ''{}'' @ fenceClose"

definition fencedScript :: perplexity_script where
  "fencedScript = unfencedScript\<lparr>pAnalysis := HttpOk \<lparr>content = fencedContent, usage = None\<rparr>\<rparr>"

text \<open>
  An error of the Gemini client that does not serialise: an Error object one of whose own
  properties holds a BigInt. \<open>bigintLib\<close> is the runtime of the example with
  \<^verbatim>\<open>JSON.stringify\<close> throwing on that error as the language prescribes. On \<open>overloadedNet\<close>
  every call of the Gemini client fails with that error and every other call with a 500;
  \<open>twoByTwoConfig\<close> has two prompts and selects Gemini and OpenAI, both with a credential and
  a model identifier.
\<close>

definition bigintError :: js_error where
  "bigintError = JsError GenericError ''The model is overloaded. Please try again later.''"

definition bigintLib :: json_lib where
  "bigintLib =
     exampleLib\<lparr>stringifyThrows :=
       (\<lambda>e. if e = bigintError then Some (JsError TypeError ''Do not know how to serialize a BigInt'')
            else None)\<rparr>"

definition overloadedNet :: net where
  "overloadedNet =
     downNet\<lparr>geminiNet := (\<lambda>pIndex i k.
        \<lparr>gPrimary = Fails (ErrorObject bigintError), gAnalysis = Fails (ErrorObject bigintError),
         gQuestions = (\<lambda>j. Fails (ErrorObject bigintError))\<rparr>),
       openaiNet := (\<lambda>pIndex i k.
        \<lparr>oPrimary = HttpError 500 ''Internal Server Error'',
         oAnalysis = HttpError 500 ''Internal Server Error'',
         oQuestions = (\<lambda>j. HttpError 500 ''Internal Server Error'')\<rparr>)\<rparr>"

definition twoByTwoConfig :: app_config where
  "twoByTwoConfig =
     \<lparr>providers = [Gemini, OpenAI],
      apiKeys = \<lparr>geminiKey = Some ''key'', openaiKey = Some ''sk-key'', perplexityKey = None\<rparr>,
      models = (\<lambda>prov. if prov = Gemini then Some ''gemini-2.5-flash''
                       else if prov = OpenAI then Some ''gpt-4o-mini'' else None),
      clientName = ''Acme'',
      competitors = [''Globex''],
      prompts = [''Who leads PIM software?'', ''Which PIM is the cheapest?''],
      additionalQuestions = [],
      broadMatch = False\<rparr>"

section \<open>Verification: the failure classifier\<close>

text \<open>
  What reaches the classifier when \<^verbatim>\<open>fetch\<close> fails inside \<open>genericAIFetch\<close>: the helper
  replaces the TypeError by an Error with a longer message, and the classifier does not
  take that one for a network failure.
\<close>

lemma genericAIFetch_network_failure:
  "genericAIFetch ''api.openai.com'' (FetchRejects (ErrorObject (JsError TypeError ''Failed to fetch'')))
     = Fails (ErrorObject (JsError GenericError (networkErrorMessage ''api.openai.com'')))
   \<and> \<not> isRetryableError (ErrorObject (JsError GenericError (networkErrorMessage ''api.openai.com'')))"
  by (simp add: genericAIFetch_def isRetryableError_def networkErrorMessage_def)

text \<open>
  A rejection of \<^verbatim>\<open>response.json()\<close> on a response that is ok is not replaced: it reaches the
  classifier as it is, and is retried when it is the TypeError \<^verbatim>\<open>Failed to fetch\<close>.
\<close>

lemma genericAIFetch_body_rejection:
  "genericAIFetch hostname (BodyRejects e) = Fails e
   \<and> isRetryableError (ErrorObject (JsError TypeError ''Failed to fetch''))"
  by (simp add: genericAIFetch_def isRetryableError_def)







section \<open>Verification: the retry engine\<close>

text \<open>
  The defining equation of the loop calls itself without a guard the simplifier could
  use; it is unfolded by hand, one case at a time.
\<close>

declare retryLoop.simps [simp del]

lemma retryLoop_closed:
  "a \<le> r + 1 \<Longrightarrow>
   \<exists>n. a \<le> n \<and> n \<le> r + 1 \<and>
     (\<forall>k. a \<le> k \<and> k < n \<longrightarrow> (\<exists>e. fn k = Rejects e \<and> isRetryableError e)) \<and>
     (\<exists>errs. (\<forall>k e. a \<le> k \<and> k < n \<and> fn k = Rejects e \<longrightarrow> errs k = toError e) \<and>
        fst (retryLoop fn r a le) =
          concat (map (\<lambda>k. [Call k, OnRetry (errs k) k, Wait (1000 * 2 ^ (k - 1))]) [a..<n]) @ [Call n]) \<and>
     snd (retryLoop fn r a le) =
       (case fn n of Resolves v \<Rightarrow> Returned v | Rejects e \<Rightarrow> Threw (toError e)) \<and>
     (case fn n of Resolves v \<Rightarrow> True | Rejects e \<Rightarrow> \<not> isRetryableError e \<or> n = r + 1)"
proof (induction fn r a le rule: retryLoop.induct)
  case (1 fn r a le)
  show ?case
  proof (cases "fn a")
    case (Resolves v)
    with "1.prems" show ?thesis
      by (intro exI[of _ a]) (auto simp add: retryLoop.simps[of fn r a le])
  next
    case (Rejects e)
    show ?thesis
    proof (cases "isRetryableError e \<and> a \<le> r")
      case False
      with Rejects "1.prems" show ?thesis
        by (intro exI[of _ a]) (auto simp add: retryLoop.simps[of fn r a le])
    next
      case True
      then have le': "a + 1 \<le> r + 1" by simp
      from "1.IH"[OF "1.prems" Rejects True refl le']
      obtain n errs where n: "a + 1 \<le> n" "n \<le> r + 1"
        and retr: "\<forall>k. a + 1 \<le> k \<and> k < n \<longrightarrow> (\<exists>e. fn k = Rejects e \<and> isRetryableError e)"
        and errs: "\<forall>k e. a + 1 \<le> k \<and> k < n \<and> fn k = Rejects e \<longrightarrow> errs k = toError e"
        and tr: "fst (retryLoop fn r (a + 1) (Some (toError e))) =
          concat (map (\<lambda>k. [Call k, OnRetry (errs k) k, Wait (1000 * 2 ^ (k - 1))]) [a + 1..<n]) @ [Call n]"
        and out: "snd (retryLoop fn r (a + 1) (Some (toError e))) =
          (case fn n of Resolves v \<Rightarrow> Returned v | Rejects e \<Rightarrow> Threw (toError e))"
        and fin: "(case fn n of Resolves v \<Rightarrow> True | Rejects e \<Rightarrow> \<not> isRetryableError e \<or> n = r + 1)"
        by blast
      let ?errs = "errs(a := toError e)"
      have up: "[a..<n] = a # [a + 1..<n]" using n by (simp add: upt_conv_Cons)
      have same: "map (\<lambda>k. [Call k, OnRetry (?errs k) k, Wait (1000 * 2 ^ (k - 1))]) [a + 1..<n]
                = map (\<lambda>k. [Call k, OnRetry (errs k) k, Wait (1000 * 2 ^ (k - 1))]) [a + 1..<n]"
        by (rule map_cong) auto
      have step: "retryLoop fn r a le =
          (Call a # OnRetry (toError e) a # Wait (1000 * 2 ^ (a - 1)) # fst (retryLoop fn r (a + 1) (Some (toError e))),
           snd (retryLoop fn r (a + 1) (Some (toError e))))"
        using Rejects True "1.prems"
        by (subst retryLoop.simps) (simp add: split_beta Let_def)
      show ?thesis
      proof (intro exI[of _ n] conjI)
        show "a \<le> n" using n by simp
        show "n \<le> r + 1" by fact
        show "\<forall>k. a \<le> k \<and> k < n \<longrightarrow> (\<exists>e. fn k = Rejects e \<and> isRetryableError e)"
        proof (intro allI impI)
          fix k assume k: "a \<le> k \<and> k < n"
          show "\<exists>e. fn k = Rejects e \<and> isRetryableError e"
          proof (cases "k = a")
            case True then show ?thesis using Rejects \<open>isRetryableError e \<and> a \<le> r\<close> by simp
          next
            case False then show ?thesis using retr k by simp
          qed
        qed
        show "\<exists>errs. (\<forall>k e. a \<le> k \<and> k < n \<and> fn k = Rejects e \<longrightarrow> errs k = toError e) \<and>
           fst (retryLoop fn r a le) =
           concat (map (\<lambda>k. [Call k, OnRetry (errs k) k, Wait (1000 * 2 ^ (k - 1))]) [a..<n]) @ [Call n]"
        proof (intro exI[of _ ?errs] conjI)
          show "\<forall>k e'. a \<le> k \<and> k < n \<and> fn k = Rejects e' \<longrightarrow> ?errs k = toError e'"
            using errs Rejects by auto
          show "fst (retryLoop fn r a le) =
            concat (map (\<lambda>k. [Call k, OnRetry (?errs k) k, Wait (1000 * 2 ^ (k - 1))]) [a..<n]) @ [Call n]"
            unfolding up list.map concat.simps same using tr by (simp add: step)
        qed
        show "snd (retryLoop fn r a le) =
          (case fn n of Resolves v \<Rightarrow> Returned v | Rejects e \<Rightarrow> Threw (toError e))"
          using out by (simp add: step)
        show "(case fn n of Resolves v \<Rightarrow> True | Rejects e \<Rightarrow> \<not> isRetryableError e \<or> n = r + 1)"
          by fact
      qed
    qed
  qed
qed


lemma retryLoop_resolves:
  "a \<le> r + 1 \<Longrightarrow> fn a = Resolves v \<Longrightarrow> retryLoop fn r a le = ([Call a], Returned v)"
  by (subst retryLoop.simps) simp

lemma retryLoop_stop:
  "a \<le> r + 1 \<Longrightarrow> fn a = Rejects e \<Longrightarrow> \<not> (isRetryableError e \<and> a \<le> r) \<Longrightarrow>
   retryLoop fn r a le = ([Call a], Threw (toError e))"
  by (subst retryLoop.simps) auto

lemma retryLoop_retry:
  "fn a = Rejects e \<Longrightarrow> isRetryableError e \<Longrightarrow> a \<le> r \<Longrightarrow>
   retryLoop fn r a le =
     (Call a # OnRetry (toError e) a # Wait (1000 * 2 ^ (a - 1))
        # fst (retryLoop fn r (a + 1) (Some (toError e))),
      snd (retryLoop fn r (a + 1) (Some (toError e))))"
  by (subst retryLoop.simps) (simp add: split_beta Let_def)

lemma retryLoop_head:
  "a \<le> r + 1 \<Longrightarrow> \<exists>rest. fst (retryLoop fn r a le) = Call a # rest"
proof (cases "fn a")
  case (Resolves v)
  assume "a \<le> r + 1"
  then show ?thesis using Resolves by (simp add: retryLoop_resolves)
next
  case (Rejects e)
  assume a: "a \<le> r + 1"
  show ?thesis
  proof (cases "isRetryableError e \<and> a \<le> r")
    case True
    then show ?thesis using Rejects by (simp add: retryLoop_retry)
  next
    case False
    then show ?thesis using Rejects a by (simp add: retryLoop_stop)
  qed
qed

lemma retryLoop_calls_from:
  "Call k \<in> set (fst (retryLoop fn r a le)) \<Longrightarrow> a \<le> k \<and> k \<le> r + 1"
proof (induction fn r a le rule: retryLoop.induct)
  case (1 fn r a le)
  show ?case
  proof (cases "a \<le> r + 1")
    case False
    then show ?thesis using "1.prems" by (subst (asm) retryLoop.simps) simp
  next
    case inrange: True
    show ?thesis
    proof (cases "fn a")
      case (Resolves v)
      then show ?thesis using "1.prems" inrange by (simp add: retryLoop_resolves)
    next
      case (Rejects e)
      show ?thesis
      proof (cases "isRetryableError e \<and> a \<le> r")
        case False
        then show ?thesis using "1.prems" inrange Rejects by (simp add: retryLoop_stop)
      next
        case True
        from "1.prems" Rejects True
        have "k = a \<or> Call k \<in> set (fst (retryLoop fn r (a + 1) (Some (toError e))))"
          by (auto simp add: retryLoop_retry)
        then show ?thesis
        proof
          assume "k = a" then show ?thesis using inrange by simp
        next
          assume "Call k \<in> set (fst (retryLoop fn r (a + 1) (Some (toError e))))"
          from "1.IH"[OF inrange Rejects True refl this] show ?thesis by simp
        qed
      qed
    qed
  qed
qed

lemma sublist_prepend: "sublist xs ys \<Longrightarrow> sublist xs (zs @ ys)"
proof -
  assume "sublist xs ys"
  then obtain ps ss where "ys = ps @ xs @ ss" by (auto simp: sublist_def)
  then have "zs @ ys = (zs @ ps) @ xs @ ss" by simp
  then show ?thesis unfolding sublist_def by blast
qed

lemma retryLoop_backoff:
  "Call k \<in> set (fst (retryLoop fn r a le)) \<Longrightarrow> fn k = Rejects x \<Longrightarrow> isRetryableError x \<Longrightarrow>
   k \<le> r \<Longrightarrow>
   sublist [Call k, OnRetry (toError x) k, Wait (1000 * 2 ^ (k - 1)), Call (k + 1)]
     (fst (retryLoop fn r a le))"
proof (induction fn r a le rule: retryLoop.induct)
  case (1 fn r a le)
  from retryLoop_calls_from[OF "1.prems"(1)] have inrange: "a \<le> r + 1" by simp
  show ?case
  proof (cases "k = a")
    case True
    from retryLoop_head[of "a + 1" r fn "Some (toError x)"] "1.prems"(4) True
    obtain rest where "fst (retryLoop fn r (a + 1) (Some (toError x))) = Call (a + 1) # rest"
      by auto
    then have "fst (retryLoop fn r a le) =
        [] @ [Call k, OnRetry (toError x) k, Wait (1000 * 2 ^ (k - 1)), Call (k + 1)] @ rest"
      using True "1.prems" by (simp add: retryLoop_retry)
    then show ?thesis unfolding sublist_def by blast
  next
    case False
    show ?thesis
    proof (cases "fn a")
      case (Resolves v)
      then show ?thesis using "1.prems" inrange False by (simp add: retryLoop_resolves)
    next
      case (Rejects e)
      show ?thesis
      proof (cases "isRetryableError e \<and> a \<le> r")
        case stop: False
        then show ?thesis using "1.prems" inrange Rejects False by (simp add: retryLoop_stop)
      next
        case True
        have eq: "fst (retryLoop fn r a le) =
            [Call a, OnRetry (toError e) a, Wait (1000 * 2 ^ (a - 1))]
              @ fst (retryLoop fn r (a + 1) (Some (toError e)))"
          using Rejects True by (simp add: retryLoop_retry)
        with "1.prems"(1) False
        have "Call k \<in> set (fst (retryLoop fn r (a + 1) (Some (toError e))))" by auto
        from "1.IH"[OF inrange Rejects True refl this "1.prems"(2,3,4)]
        show ?thesis unfolding eq by (rule sublist_prepend)
      qed
    qed
  qed
qed


lemma retryLoop_final:
  "Call k \<in> set (fst (retryLoop fn r a le)) \<Longrightarrow> fn k = Rejects x \<Longrightarrow> \<not> isRetryableError x \<Longrightarrow>
   \<exists>pre. fst (retryLoop fn r a le) = pre @ [Call k]"
proof (induction fn r a le rule: retryLoop.induct)
  case (1 fn r a le)
  from retryLoop_calls_from[OF "1.prems"(1)] have inrange: "a \<le> r + 1" by simp
  show ?case
  proof (cases "fn a")
    case (Resolves v)
    then show ?thesis using "1.prems" inrange by (simp add: retryLoop_resolves)
  next
    case (Rejects e)
    show ?thesis
    proof (cases "isRetryableError e \<and> a \<le> r")
      case False
      then show ?thesis using "1.prems" inrange Rejects by (simp add: retryLoop_stop)
    next
      case True
      have eq: "fst (retryLoop fn r a le) =
          [Call a, OnRetry (toError e) a, Wait (1000 * 2 ^ (a - 1))]
            @ fst (retryLoop fn r (a + 1) (Some (toError e)))"
        using Rejects True by (simp add: retryLoop_retry)
      have "k \<noteq> a" using "1.prems"(2,3) Rejects True by auto
      with "1.prems"(1) eq
      have "Call k \<in> set (fst (retryLoop fn r (a + 1) (Some (toError e))))" by auto
      from "1.IH"[OF inrange Rejects True refl this "1.prems"(2,3)]
      obtain pre where "fst (retryLoop fn r (a + 1) (Some (toError e))) = pre @ [Call k]" by blast
      then have "fst (retryLoop fn r a le) =
          ([Call a, OnRetry (toError e) a, Wait (1000 * 2 ^ (a - 1))] @ pre) @ [Call k]"
        using eq by simp
      then show ?thesis by blast
    qed
  qed
qed

lemma retryLoop_waits:
  "Wait d \<in> set (fst (retryLoop fn r a le)) \<Longrightarrow>
   \<exists>k x. Call k \<in> set (fst (retryLoop fn r a le)) \<and> k \<le> r \<and> fn k = Rejects x \<and>
         isRetryableError x \<and> d = 1000 * 2 ^ (k - 1)"
proof (induction fn r a le rule: retryLoop.induct)
  case (1 fn r a le)
  show ?case
  proof (cases "a \<le> r + 1")
    case False
    then show ?thesis using "1.prems" by (subst (asm) retryLoop.simps) simp
  next
    case inrange: True
    show ?thesis
    proof (cases "fn a")
      case (Resolves v)
      then show ?thesis using "1.prems" inrange by (simp add: retryLoop_resolves)
    next
      case (Rejects e)
      show ?thesis
      proof (cases "isRetryableError e \<and> a \<le> r")
        case False
        then show ?thesis using "1.prems" inrange Rejects by (simp add: retryLoop_stop)
      next
        case True
        have eq: "fst (retryLoop fn r a le) =
            [Call a, OnRetry (toError e) a, Wait (1000 * 2 ^ (a - 1))]
              @ fst (retryLoop fn r (a + 1) (Some (toError e)))"
          using Rejects True by (simp add: retryLoop_retry)
        from "1.prems" eq
        have "d = 1000 * 2 ^ (a - 1) \<or> Wait d \<in> set (fst (retryLoop fn r (a + 1) (Some (toError e))))"
          by auto
        then show ?thesis
        proof
          assume "d = 1000 * 2 ^ (a - 1)"
          then show ?thesis using eq Rejects True by (intro exI[of _ a] exI[of _ e]) simp
        next
          assume "Wait d \<in> set (fst (retryLoop fn r (a + 1) (Some (toError e))))"
          from "1.IH"[OF inrange Rejects True refl this] show ?thesis unfolding eq by auto
        qed
      qed
    qed
  qed
qed

lemma retryLoop_rethrows:
  "a \<le> n \<Longrightarrow> n \<le> r + 1 \<Longrightarrow>
   \<forall>k. a \<le> k \<and> k < n \<longrightarrow> (\<exists>e. fn k = Rejects e \<and> isRetryableError e) \<Longrightarrow>
   fn n = Rejects x \<Longrightarrow> \<not> isRetryableError x \<or> n = r + 1 \<Longrightarrow>
   snd (retryLoop fn r a le) = Threw (toError x)"
proof (induction fn r a le rule: retryLoop.induct)
  case (1 fn r a le)
  show ?case
  proof (cases "a = n")
    case True
    then show ?thesis using "1.prems" by (auto simp add: retryLoop_stop)
  next
    case False
    with "1.prems" have lt: "a < n" and ar: "a \<le> r" by simp_all
    with "1.prems"(3) obtain e where e: "fn a = Rejects e" "isRetryableError e" by blast
    have inrange: "a \<le> r + 1" using ar by simp
    have both: "isRetryableError e \<and> a \<le> r" using e ar by simp
    have "snd (retryLoop fn r (a + 1) (Some (toError e))) = Threw (toError x)"
      using "1.IH"[OF inrange e(1) both refl] lt "1.prems" by simp
    then show ?thesis using e ar by (simp add: retryLoop_retry)
  qed
qed

lemma retryLoop_never_null:
  "a \<le> r + 1 \<Longrightarrow> snd (retryLoop fn r a le) \<noteq> ThrewNull"
  using retryLoop_closed[of a r fn le] by (auto split: attempt.splits)

text \<open>
  Claim C5: a retryable failure on attempt \<open>k\<close> with attempts remaining is followed by the
  call \<open>onRetry(error, k)\<close>, then by a wait of \<open>1000 * 2^(k-1)\<close> milliseconds, then by attempt
  \<open>k + 1\<close>; the engine waits at no other time; and a failure that is not retryable is the last
  thing the engine does, so it triggers no wait. (The base delay is the constant 1000 of
  line 49; with the orchestrator's 2 retries the waits are 1000 and 2000.)
\<close>

theorem retryWithBackoff_backoff:
  assumes "retryWithBackoff fn maxRetries = (evs, out)"
  shows "(\<forall>k x. Call k \<in> set evs \<and> fn k = Rejects x \<and> isRetryableError x \<and> k \<le> maxRetries \<longrightarrow>
            sublist [Call k, OnRetry (toError x) k, Wait (1000 * 2 ^ (k - 1)), Call (k + 1)] evs)
       \<and> (\<forall>d. Wait d \<in> set evs \<longrightarrow>
            (\<exists>k x. Call k \<in> set evs \<and> k \<le> maxRetries \<and> fn k = Rejects x \<and> isRetryableError x
                   \<and> d = 1000 * 2 ^ (k - 1)))
       \<and> (\<forall>k x. Call k \<in> set evs \<and> fn k = Rejects x \<and> \<not> isRetryableError x \<longrightarrow>
            (\<exists>pre. evs = pre @ [Call k]))
       \<and> (\<forall>x. fn 1 = Rejects x \<and> \<not> isRetryableError x \<longrightarrow> evs = [Call 1])"
proof -
  have evs: "evs = fst (retryLoop fn maxRetries 1 None)"
    using assms by (simp add: retryWithBackoff_def)
  show ?thesis
  proof (intro conjI allI impI)
    fix k x
    assume "Call k \<in> set evs \<and> fn k = Rejects x \<and> isRetryableError x \<and> k \<le> maxRetries"
    then show "sublist [Call k, OnRetry (toError x) k, Wait (1000 * 2 ^ (k - 1)), Call (k + 1)] evs"
      unfolding evs by (blast intro: retryLoop_backoff)
  next
    fix d
    assume "Wait d \<in> set evs"
    then show "\<exists>k x. Call k \<in> set evs \<and> k \<le> maxRetries \<and> fn k = Rejects x \<and> isRetryableError x
                   \<and> d = 1000 * 2 ^ (k - 1)"
      unfolding evs by (rule retryLoop_waits)
  next
    fix k x
    assume "Call k \<in> set evs \<and> fn k = Rejects x \<and> \<not> isRetryableError x"
    then show "\<exists>pre. evs = pre @ [Call k]"
      unfolding evs by (blast intro: retryLoop_final)
  next
    fix x
    assume "fn 1 = Rejects x \<and> \<not> isRetryableError x"
    then show "evs = [Call 1]"
      unfolding evs by (simp add: retryLoop_stop)
  qed
qed

theorem retryWithBackoff_backoff_witness:
  "retryWithBackoff (\<lambda>k. Rejects (ErrorObject (JsError (APIError 503) ''Service Unavailable'')) :: nat attempt) 2
     = ([Call 1, OnRetry (JsError (APIError 503) ''Service Unavailable'') 1, Wait 1000,
         Call 2, OnRetry (JsError (APIError 503) ''Service Unavailable'') 2, Wait 2000,
         Call 3],
        Threw (JsError (APIError 503) ''Service Unavailable''))
   \<and> sublist [Call 1, OnRetry (JsError (APIError 503) ''Service Unavailable'') 1, Wait 1000, Call 2]
        [Call 1, OnRetry (JsError (APIError 503) ''Service Unavailable'') 1, Wait 1000,
         Call 2, OnRetry (JsError (APIError 503) ''Service Unavailable'') 2, Wait 2000,
         Call 3]
   \<and> sublist [Call 2, OnRetry (JsError (APIError 503) ''Service Unavailable'') 2, Wait 2000, Call 3]
        [Call 1, OnRetry (JsError (APIError 503) ''Service Unavailable'') 1, Wait 1000,
         Call 2, OnRetry (JsError (APIError 503) ''Service Unavailable'') 2, Wait 2000,
         Call 3]"
proof -
  let ?e = "JsError (APIError 503) ''Service Unavailable''"
  let ?fn = "\<lambda>k. Rejects (ErrorObject ?e) :: nat attempt"
  let ?evs = "[Call 1, OnRetry ?e 1, Wait 1000, Call 2, OnRetry ?e 2, Wait 2000, Call 3]"
  have retryable: "isRetryableError (ErrorObject ?e)"
    by (simp add: isRetryableError_def)
  have run: "retryWithBackoff ?fn 2 = (?evs, Threw ?e)"
    using retryable
    by (simp add: retryWithBackoff_def retryLoop_retry retryLoop_stop)
  from retryWithBackoff_backoff[OF run]
  have all: "\<forall>k x. Call k \<in> set ?evs \<and> ?fn k = Rejects x \<and> isRetryableError x \<and> k \<le> 2 \<longrightarrow>
            sublist [Call k, OnRetry (toError x) k, Wait (1000 * 2 ^ (k - 1)), Call (k + 1)] ?evs"
    by (rule conjunct1)
  from all[rule_format, of 1 "ErrorObject ?e"] retryable
  have first: "sublist [Call 1, OnRetry ?e 1, Wait 1000, Call 2] ?evs"
    by simp
  from all[rule_format, of 2 "ErrorObject ?e"] retryable
  have second: "sublist [Call 2, OnRetry ?e 2, Wait 2000, Call 3] ?evs"
    by simp
  note first second
  with run show ?thesis by simp
qed

text \<open>
  Claim C8 says that the engine raises the last error again unchanged, without a wrapping
  that loses the kind of the failure. Line 46 replaces a rejection value that is not an
  Error instance by \<^verbatim>\<open>new Error(String(e))\<close>: when the operation rejects with the plain object
  \<^verbatim>\<open>{status: 429}\<close>, the engine throws an Error with the message \<^verbatim>\<open>[object Object]\<close>, and
  the status is lost.
\<close>

theorem retryWithBackoff_wraps_non_error:
  "snd (retryWithBackoff rejectsWithObject 2) = Threw (JsError GenericError ''[object Object]'')
   \<and> \<not> rethrownUnchanged (NonError ''[object Object]'' None)
         (snd (retryWithBackoff rejectsWithObject 2))"
proof -
  have nr: "\<not> isRetryableError (NonError ''[object Object]'' None)"
    by (simp add: isRetryableError_def)
  have "retryLoop rejectsWithObject 2 1 None
      = ([Call 1], Threw (toError (NonError ''[object Object]'' None)))"
    using nr by (intro retryLoop_stop) (simp_all add: rejectsWithObject_def)
  then have "snd (retryWithBackoff rejectsWithObject 2) = Threw (JsError GenericError ''[object Object]'')"
    by (simp add: retryWithBackoff_def)
  then show ?thesis by (simp add: rethrownUnchanged_def)
qed

text \<open>
  Claim C8, amended: when the attempts before attempt \<open>n\<close> failed and were retried, and
  attempt \<open>n\<close> fails with a failure that is not retryable or is the last attempt allowed,
  the engine throws the error of attempt \<open>n\<close>. When that rejection value is an Error
  instance, the engine throws the instance itself, unchanged; when it is another value
  (other than \<^verbatim>\<open>null\<close> and \<^verbatim>\<open>undefined\<close>), the engine throws a new plain Error whose message
  is \<^verbatim>\<open>String\<close> of the value.
\<close>

theorem retryWithBackoff_rethrows:
  assumes "1 \<le> n" and "n \<le> maxRetries + 1"
    and "\<forall>k. 1 \<le> k \<and> k < n \<longrightarrow> (\<exists>e. fn k = Rejects e \<and> isRetryableError e)"
    and "fn n = Rejects x"
    and "\<not> isRetryableError x \<or> n = maxRetries + 1"
  shows "(\<forall>e. x = ErrorObject e \<longrightarrow>
            snd (retryWithBackoff fn maxRetries) = Threw e
            \<and> rethrownUnchanged x (snd (retryWithBackoff fn maxRetries)))
       \<and> (\<forall>s m. x = NonError s m \<longrightarrow>
            snd (retryWithBackoff fn maxRetries) = Threw (JsError GenericError s))"
proof -
  have "snd (retryLoop fn maxRetries 1 None) = Threw (toError x)"
    using assms by (intro retryLoop_rethrows[of 1 n]) simp_all
  then show ?thesis by (auto simp add: retryWithBackoff_def rethrownUnchanged_def)
qed

theorem retryWithBackoff_rethrows_witness:
  "snd (retryWithBackoff
         (\<lambda>k. if k < 3 then Rejects (ErrorObject (JsError (APIError 503) ''Service Unavailable''))
               else (Rejects (ErrorObject (JsError (APIError 500) ''Internal Server Error'')) :: nat attempt)) 2)
     = Threw (JsError (APIError 500) ''Internal Server Error'')
   \<and> snd (retryWithBackoff
         (\<lambda>k. Rejects (ErrorObject (JsError (APIError 401) ''Authentication failed. Please check your API key.'')) :: nat attempt) 2)
     = Threw (JsError (APIError 401) ''Authentication failed. Please check your API key.'')
   \<and> snd (retryWithBackoff
         (\<lambda>k. Rejects (NonError ''[object Object]'' (Some ''rate limit exceeded'')) :: nat attempt) 2)
     = Threw (JsError GenericError ''[object Object]'')"
proof -
  let ?f = "\<lambda>k. if k < 3 then Rejects (ErrorObject (JsError (APIError 503) ''Service Unavailable''))
               else (Rejects (ErrorObject (JsError (APIError 500) ''Internal Server Error'')) :: nat attempt)"
  let ?g = "\<lambda>k. Rejects (ErrorObject (JsError (APIError 401) ''Authentication failed. Please check your API key.'')) :: nat attempt"
  let ?h = "\<lambda>k. Rejects (NonError ''[object Object]'' (Some ''rate limit exceeded'')) :: nat attempt"
  have a: "\<forall>k. 1 \<le> k \<and> k < 3 \<longrightarrow> (\<exists>e. ?f k = Rejects e \<and> isRetryableError e)"
    by (simp add: isRetryableError_def)
  have b: "\<not> isRetryableError (ErrorObject (JsError (APIError 401) ''Authentication failed. Please check your API key.''))"
    by (simp add: isRetryableError_def)
  have c: "\<forall>k. 1 \<le> k \<and> k < 3 \<longrightarrow> (\<exists>e. ?h k = Rejects e \<and> isRetryableError e)"
    by (simp add: isRetryableError_def)
  from retryWithBackoff_rethrows[of 3 2 ?f, OF _ _ a]
  have "snd (retryWithBackoff ?f 2) = Threw (JsError (APIError 500) ''Internal Server Error'')"
    by simp
  moreover from retryWithBackoff_rethrows[of 1 2 ?g] b
  have "snd (retryWithBackoff ?g 2) = Threw (JsError (APIError 401) ''Authentication failed. Please check your API key.'')"
    by simp
  moreover from retryWithBackoff_rethrows[of 3 2 ?h, OF _ _ c]
  have "snd (retryWithBackoff ?h 2) = Threw (JsError GenericError ''[object Object]'')"
    by simp
  ultimately show ?thesis by simp
qed

section \<open>Verification: the adapters\<close>

subsection \<open>Citations of the Perplexity adapter\<close>

lemma firstOccurrences_snoc:
  "firstOccurrences (xs @ [x]) = (if x \<in> set xs then firstOccurrences xs else firstOccurrences xs @ [x])"
  by (simp add: firstOccurrences_def)

lemma set_firstOccurrences: "set (firstOccurrences xs) = set xs"
  by (simp add: firstOccurrences_def)

lemma distinct_firstOccurrences: "distinct (firstOccurrences xs)"
  by (simp add: firstOccurrences_def)

lemma citeInv_add:
  assumes "citeInv seen (cs, f, i)" and "u \<notin> f"
  shows "citeInv (seen @ [u]) (cs @ [\<lparr>index = i, url = u, title = t\<rparr>], insert u f, i + 1)"
  using assms by (auto simp add: citeInv_def firstOccurrences_snoc)

lemma citeInv_skip:
  assumes "citeInv seen (cs, f, i)" and "u \<in> f"
  shows "citeInv (seen @ [u]) (cs, f, i)"
  using assms by (auto simp add: citeInv_def firstOccurrences_snoc)

lemma citeUrl_inv:
  "citeInv seen st \<Longrightarrow> citeInv (seen @ stringItems [item]) (citeUrl st item)"
proof -
  assume inv: "citeInv seen st"
  obtain cs f i where st: "st = (cs, f, i)" by (cases st)
  show ?thesis
  proof (cases item)
    case None
    then show ?thesis using inv by (simp add: st)
  next
    case (Some u)
    then show ?thesis using inv citeInv_add[of seen cs f i u] citeInv_skip[of seen cs f i u]
      by (simp add: st)
  qed
qed

lemma citeResult_inv:
  "citeInv seen st \<Longrightarrow> citeInv (seen @ stringItems [resultUrl r]) (citeResult st r)"
proof -
  assume inv: "citeInv seen st"
  obtain cs f i where st: "st = (cs, f, i)" by (cases st)
  show ?thesis
  proof (cases "resultUrl r")
    case None
    then show ?thesis using inv by (simp add: st)
  next
    case (Some u)
    then show ?thesis using inv citeInv_add[of seen cs f i u] citeInv_skip[of seen cs f i u]
      by (simp add: st)
  qed
qed

lemma stringItems_Cons: "stringItems (item # items) = stringItems [item] @ stringItems items"
  by (cases item) simp_all

lemma foldl_citeUrl_inv:
  "citeInv seen st \<Longrightarrow> citeInv (seen @ stringItems items) (foldl citeUrl st items)"
proof (induction items arbitrary: seen st)
  case Nil
  then show ?case by simp
next
  case (Cons item items)
  from Cons.IH[OF citeUrl_inv[OF Cons.prems, of item]]
  show ?case by (subst stringItems_Cons) simp
qed

lemma foldl_citeResult_inv:
  "citeInv seen st \<Longrightarrow> citeInv (seen @ stringItems (map resultUrl rs)) (foldl citeResult st rs)"
proof (induction rs arbitrary: seen st)
  case Nil
  then show ?case by simp
next
  case (Cons r rs)
  from Cons.IH[OF citeResult_inv[OF Cons.prems, of r]]
  show ?case unfolding list.map by (subst stringItems_Cons) simp
qed

lemma parseCitations_inv:
  "citeInv (citedUrls rawData @ resultUrls rawData)
     (foldl citeResult (foldl citeUrl ([], {}, 1)
        (case pplxCitations rawData of None \<Rightarrow> [] | Some us \<Rightarrow> us))
        (case searchResults rawData of None \<Rightarrow> [] | Some rs \<Rightarrow> rs))"
proof -
  have "citeInv [] ([], {}, 1)" by (simp add: citeInv_def firstOccurrences_def)
  from foldl_citeResult_inv[OF foldl_citeUrl_inv[OF this]]
  show ?thesis unfolding citedUrls_def resultUrls_def by simp
qed

lemma firstOccurrences_append:
  "firstOccurrences (xs @ ys) =
     firstOccurrences xs @ firstOccurrences (filter (\<lambda>y. y \<notin> set xs) ys)"
proof (induction ys rule: rev_induct)
  case Nil
  then show ?case by (simp add: firstOccurrences_def)
next
  case (snoc y ys)
  have "firstOccurrences ((xs @ ys) @ [y]) =
      (if y \<in> set (xs @ ys) then firstOccurrences (xs @ ys) else firstOccurrences (xs @ ys) @ [y])"
    by (rule firstOccurrences_snoc)
  then show ?case using snoc.IH by (auto simp add: firstOccurrences_snoc)
qed

subsection \<open>The fenced block and the brand lists\<close>

lemma collect_ok:
  "\<forall>c \<in> set cs. \<exists>a. c = Replies a \<Longrightarrow> \<exists>as. collect cs = Inr as"
proof (induction cs)
  case Nil
  then show ?case by simp
next
  case (Cons c cs)
  then obtain a where "c = Replies a" by auto
  moreover from Cons obtain as where "collect cs = Inr as" by auto
  ultimately show ?case by simp
qed

lemma beforeFirst_Some: "beforeFirst needle s = Some b \<Longrightarrow> \<exists>c. s = b @ needle @ c"
proof (induction s arbitrary: b)
  case Nil
  then show ?case by (simp split: if_splits)
next
  case (Cons x s)
  show ?case
  proof (cases "prefix needle (x # s)")
    case True
    then show ?thesis using Cons.prems by (auto simp add: prefix_def)
  next
    case False
    with Cons.prems obtain b' where b': "beforeFirst needle s = Some b'" "b = x # b'"
      by auto
    from Cons.IH[OF b'(1)] b'(2) show ?thesis by auto
  qed
qed

lemma matchJsonFence_Some: "matchJsonFence s = Some b \<Longrightarrow> hasJsonFence s"
proof (induction s)
  case Nil
  then show ?case by simp
next
  case (Cons x s)
  let ?rest = "drop (length fenceOpen) (x # s)"
  show ?case
  proof (cases "prefix fenceOpen (x # s) \<and> beforeFirst fenceClose ?rest \<noteq> None")
    case True
    then obtain b' where b': "beforeFirst fenceClose ?rest = Some b'" by auto
    from beforeFirst_Some[OF this] obtain c where c: "?rest = b' @ fenceClose @ c" by blast
    from True have "x # s = fenceOpen @ ?rest" by (auto simp add: prefix_def)
    with c have "x # s = [] @ fenceOpen @ b' @ fenceClose @ c" by simp
    then show ?thesis unfolding hasJsonFence_def by blast
  next
    case False
    with Cons.prems have "matchJsonFence s = Some b" by (auto split: option.splits if_splits)
    from Cons.IH[OF this] obtain a b' c where "s = a @ fenceOpen @ b' @ fenceClose @ c"
      unfolding hasJsonFence_def by blast
    then have "x # s = (x # a) @ fenceOpen @ b' @ fenceClose @ c" by simp
    then show ?thesis unfolding hasJsonFence_def by blast
  qed
qed

lemma no_backtick_no_fence: "CHR 0x60 \<notin> set s \<Longrightarrow> \<not> hasJsonFence s"
  by (auto simp add: hasJsonFence_def fenceOpen_def)

text \<open>
  The matcher agrees with the pattern: it finds a fenced block whenever the text has one,
  and what it captures is the body of the leftmost block, the shortest there.
\<close>

lemma beforeFirst_found: "s = b @ needle @ c \<Longrightarrow> beforeFirst needle s \<noteq> None"
proof (induction b arbitrary: s)
  case Nil
  then have p: "prefix needle s" by (simp add: prefix_def)
  show ?case
  proof (cases s)
    case Nil
    with p show ?thesis by simp
  next
    case (Cons x xs)
    with p show ?thesis by simp
  qed
next
  case (Cons x b)
  then obtain s' where s': "s = x # s'" "s' = b @ needle @ c" by auto
  from Cons.IH[OF s'(2)] show ?case unfolding s'(1) by auto
qed

lemma beforeFirst_least:
  "beforeFirst needle s = Some b \<Longrightarrow> s = b' @ needle @ c' \<Longrightarrow> length b \<le> length b'"
proof (induction s arbitrary: b b')
  case Nil
  then show ?case by (simp split: if_splits)
next
  case (Cons x s)
  show ?case
  proof (cases "prefix needle (x # s)")
    case True
    with Cons.prems(1) show ?thesis by simp
  next
    case False
    with Cons.prems(1) obtain b0 where b0: "beforeFirst needle s = Some b0" "b = x # b0"
      by auto
    from False Cons.prems(2) have "b' \<noteq> []" by (auto simp add: prefix_def)
    with Cons.prems(2) obtain b0' where b0': "b' = x # b0'" "s = b0' @ needle @ c'"
      by (cases b') auto
    from Cons.IH[OF b0(1) b0'(2)] b0(2) b0'(1) show ?thesis by simp
  qed
qed

lemma fencedAt_Nil: "fencedAt s [] body \<longleftrightarrow> prefix fenceOpen s \<and> (\<exists>c. drop (length fenceOpen) s = body @ fenceClose @ c)"
  by (auto simp add: fencedAt_def prefix_def)

lemma fencedAt_Cons: "fencedAt (x # s) (y # a) body \<longleftrightarrow> x = y \<and> fencedAt s a body"
  by (auto simp add: fencedAt_def)

lemma fencedAt_Nil_left: "\<not> fencedAt [] a body"
  by (simp add: fencedAt_def fenceOpen_def)

lemma no_match_at_head:
  assumes "(if prefix fenceOpen s then beforeFirst fenceClose (drop (length fenceOpen) s) else None) = None"
  shows "\<not> fencedAt s [] body"
proof
  assume "fencedAt s [] body"
  then obtain c where p: "prefix fenceOpen s" and d: "drop (length fenceOpen) s = body @ fenceClose @ c"
    by (auto simp add: fencedAt_Nil)
  from beforeFirst_found[OF d] p assms show False by simp
qed

lemma matchJsonFence_sound:
  "matchJsonFence s = Some body \<Longrightarrow>
   \<exists>a. fencedAt s a body \<and>
        (\<forall>a' body'. fencedAt s a' body' \<longrightarrow>
           length a < length a' \<or> (length a' = length a \<and> length body \<le> length body'))"
proof (induction s)
  case Nil
  then show ?case by simp
next
  case (Cons x s)
  let ?head = "if prefix fenceOpen (x # s)
               then beforeFirst fenceClose (drop (length fenceOpen) (x # s)) else None"
  show ?case
  proof (cases ?head)
    case (Some b)
    then have p: "prefix fenceOpen (x # s)"
      and bf: "beforeFirst fenceClose (drop (length fenceOpen) (x # s)) = Some b"
      by (simp_all split: if_splits)
    from Cons.prems p bf have body: "body = b" by (simp del: drop_Suc_Cons)
    from beforeFirst_Some[OF bf] p have here: "fencedAt (x # s) [] body"
      unfolding body by (auto simp add: fencedAt_Nil)
    have "\<forall>a' body'. fencedAt (x # s) a' body' \<longrightarrow>
           length ([]::string) < length a' \<or> (length a' = length ([]::string) \<and> length body \<le> length body')"
    proof (intro allI impI)
      fix a' body' assume f: "fencedAt (x # s) a' body'"
      show "length ([]::string) < length a' \<or> (length a' = length ([]::string) \<and> length body \<le> length body')"
      proof (cases a')
        case Nil
        with f obtain c where "drop (length fenceOpen) (x # s) = body' @ fenceClose @ c"
          by (auto simp add: fencedAt_Nil)
        from beforeFirst_least[OF bf this] Nil show ?thesis by (simp add: body)
      next
        case (Cons y ys)
        then show ?thesis by simp
      qed
    qed
    with here show ?thesis by blast
  next
    case None
    with Cons.prems have "matchJsonFence s = Some body" by (simp del: drop_Suc_Cons split: if_splits)
    from Cons.IH[OF this] obtain a where a: "fencedAt s a body"
      and least: "\<forall>a' body'. fencedAt s a' body' \<longrightarrow>
           length a < length a' \<or> (length a' = length a \<and> length body \<le> length body')"
      by blast
    have here: "fencedAt (x # s) (x # a) body" using a by (simp add: fencedAt_Cons)
    have "\<forall>a' body'. fencedAt (x # s) a' body' \<longrightarrow>
           length (x # a) < length a' \<or> (length a' = length (x # a) \<and> length body \<le> length body')"
    proof (intro allI impI)
      fix a' body' assume f: "fencedAt (x # s) a' body'"
      show "length (x # a) < length a' \<or> (length a' = length (x # a) \<and> length body \<le> length body')"
      proof (cases a')
        case Nil
        with f no_match_at_head[OF None] show ?thesis by simp
      next
        case (Cons y ys)
        with f have "fencedAt s ys body'" by (simp add: fencedAt_Cons)
        with least Cons show ?thesis by auto
      qed
    qed
    with here show ?thesis by blast
  qed
qed

lemma matchJsonFence_found: "fencedAt s a body \<Longrightarrow> matchJsonFence s \<noteq> None"
proof (induction a arbitrary: s)
  case Nil
  then obtain c where p: "prefix fenceOpen s"
    and d: "drop (length fenceOpen) s = body @ fenceClose @ c"
    by (auto simp add: fencedAt_Nil)
  from p obtain x s' where s: "s = x # s'" by (cases s) (auto simp add: fenceOpen_def)
  from beforeFirst_found[OF d] p show ?case unfolding s by (auto simp del: drop_Suc_Cons)
next
  case (Cons y a)
  then obtain s' where s: "s = y # s'" and f: "fencedAt s' a body"
    by (cases s) (auto simp add: fencedAt_Cons fencedAt_Nil_left)
  from Cons.IH[OF f] show ?case unfolding s by (auto simp del: drop_Suc_Cons split: option.splits)
qed

lemma jsonFenceMatch_unique:
  assumes "jsonFenceMatch s b1" and "jsonFenceMatch s b2"
  shows "b1 = b2"
proof -
  from assms(1) obtain a1 where a1: "fencedAt s a1 b1"
    and l1: "\<forall>a' body'. fencedAt s a' body' \<longrightarrow>
           length a1 < length a' \<or> (length a' = length a1 \<and> length b1 \<le> length body')"
    unfolding jsonFenceMatch_def by blast
  from assms(2) obtain a2 where a2: "fencedAt s a2 b2"
    and l2: "\<forall>a' body'. fencedAt s a' body' \<longrightarrow>
           length a2 < length a' \<or> (length a' = length a2 \<and> length b2 \<le> length body')"
    unfolding jsonFenceMatch_def by blast
  from l1 a2 l2 a1 have la: "length a1 = length a2" and lb: "length b1 = length b2"
    by (metis le_antisym less_imp_le_nat not_less_iff_gr_or_eq)+
  from a1 a2 obtain c1 c2 where "a1 @ fenceOpen @ b1 @ fenceClose @ c1 = a2 @ fenceOpen @ b2 @ fenceClose @ c2"
    unfolding fencedAt_def by auto
  with la lb show ?thesis by simp
qed

lemma matchJsonFence_iff: "matchJsonFence s = Some body \<longleftrightarrow> jsonFenceMatch s body"
proof
  assume "matchJsonFence s = Some body"
  from matchJsonFence_sound[OF this] show "jsonFenceMatch s body" by (simp add: jsonFenceMatch_def)
next
  assume m: "jsonFenceMatch s body"
  then obtain a where "fencedAt s a body" unfolding jsonFenceMatch_def by blast
  from matchJsonFence_found[OF this] obtain b where b: "matchJsonFence s = Some b" by auto
  from matchJsonFence_sound[OF b] have "jsonFenceMatch s b" by (simp add: jsonFenceMatch_def)
  from jsonFenceMatch_unique[OF this m] b show "matchJsonFence s = Some body" by simp
qed

lemma matchJsonFence_None_iff: "matchJsonFence s = None \<longleftrightarrow> \<not> hasJsonFence s"
proof
  assume n: "matchJsonFence s = None"
  show "\<not> hasJsonFence s"
  proof
    assume "hasJsonFence s"
    then obtain a b where "fencedAt s a b" by (auto simp add: hasJsonFence_def fencedAt_def)
    from matchJsonFence_found[OF this] n show False by simp
  qed
next
  assume nf: "\<not> hasJsonFence s"
  show "matchJsonFence s = None"
  proof (cases "matchJsonFence s")
    case None then show ?thesis .
  next
    case (Some b)
    from matchJsonFence_sound[OF this] have "hasJsonFence s"
      by (auto simp add: hasJsonFence_def fencedAt_def)
    with nf show ?thesis by simp
  qed
qed

lemma gemini_brands:
  assumes "runGeminiAnalysisForPrompt lib config gnet = Resolves r"
  shows "\<exists>a bs. gAnalysis gnet = Replies a \<and> parseArray lib (gText a) = Inr bs
            \<and> brandAnalyses r = Some bs"
  using assms
  by (auto simp add: runGeminiAnalysisForPrompt_def split: call.splits sum.splits)

lemma openai_brands:
  assumes "runOpenAIAnalysisForPrompt lib config onet = Resolves r"
  shows "\<exists>a parsed. oAnalysis onet = HttpOk a \<and> parseBrands lib (content a) = Inr parsed
            \<and> brandAnalyses r = Some (case parsed of None \<Rightarrow> [] | Some bs \<Rightarrow> bs)"
  using assms
  by (auto simp add: runOpenAIAnalysisForPrompt_def genericAIFetch_def
           split: call.splits sum.splits http_result.splits if_splits)

lemma unfenced_run: "\<exists>r. runPerplexityAnalysisForPrompt exampleLib exampleConfig unfencedScript = Resolves r"
  by (simp add: runPerplexityAnalysisForPrompt_def genericAIFetch_def unfencedScript_def
        exampleConfig_def fenceOpen_def)

lemma websearch_brands:
  assumes "runOpenAIWebSearchAnalysisForPrompt lib config wnet = Resolves r"
  shows "\<exists>a. wAnalysis wnet = HttpOk a \<and>
           (if truthy (messageText a)
            then \<exists>parsed. parseBrands lib (case messageText a of Some c \<Rightarrow> c | None \<Rightarrow> []) = Inr parsed
                   \<and> brandAnalyses r = Some (case parsed of None \<Rightarrow> [] | Some bs \<Rightarrow> bs)
            else brandAnalyses r = Some [])"
proof -
  from assms obtain rawData where "genericAIFetch ''api.openai.com'' (wPrimary wnet) = Replies rawData"
    by (auto simp add: runOpenAIWebSearchAnalysisForPrompt_def split: call.splits)
  note raw = this
  from assms raw obtain m where m: "wsMessage rawData = Some m"
    by (auto simp add: runOpenAIWebSearchAnalysisForPrompt_def split: option.splits)
  from assms raw m obtain a where a: "genericAIFetch ''api.openai.com'' (wAnalysis wnet) = Replies a"
    by (auto simp add: runOpenAIWebSearchAnalysisForPrompt_def Let_def split: call.splits)
  then have ok: "wAnalysis wnet = HttpOk a"
    by (auto simp add: genericAIFetch_def split: http_result.splits if_splits)
  show ?thesis
  proof (cases "truthy (messageText a)")
    case True
    with assms raw m a obtain parsed where
      "parseBrands lib (case messageText a of Some c \<Rightarrow> c | None \<Rightarrow> []) = Inr parsed"
      "brandAnalyses r = Some (case parsed of None \<Rightarrow> [] | Some bs \<Rightarrow> bs)"
      by (auto simp add: runOpenAIWebSearchAnalysisForPrompt_def Let_def split: sum.splits)
    with True ok show ?thesis by auto
  next
    case False
    with assms raw m a have "brandAnalyses r = Some []"
      by (auto simp add: runOpenAIWebSearchAnalysisForPrompt_def Let_def split: sum.splits)
    with False ok show ?thesis by auto
  qed
qed

lemma perplexity_brands_matched:
  assumes "runPerplexityAnalysisForPrompt lib config pnet = Resolves r"
  shows "\<exists>a. pAnalysis pnet = HttpOk a \<and>
           (case matchJsonFence (content a) of
              None \<Rightarrow> brandAnalyses r = Some []
            | Some body \<Rightarrow> parseBrands lib body = Inr (brandAnalyses r))"
  using assms
  by (auto simp add: runPerplexityAnalysisForPrompt_def genericAIFetch_def
           split: call.splits sum.splits http_result.splits if_splits option.splits)

lemma perplexity_brands:
  assumes "runPerplexityAnalysisForPrompt lib config pnet = Resolves r"
  shows "\<exists>a. pAnalysis pnet = HttpOk a \<and>
           (\<not> hasJsonFence (content a) \<longrightarrow> brandAnalyses r = Some []) \<and>
           (\<forall>body. jsonFenceMatch (content a) body \<longrightarrow>
              (\<exists>parsed. parseBrands lib body = Inr parsed \<and>
                 (\<forall>bs. parsed = Some bs \<longrightarrow> brandAnalyses r = Some bs)))"
proof -
  from perplexity_brands_matched[OF assms] obtain a where a: "pAnalysis pnet = HttpOk a"
    and m: "case matchJsonFence (content a) of
              None \<Rightarrow> brandAnalyses r = Some []
            | Some body \<Rightarrow> parseBrands lib body = Inr (brandAnalyses r)"
    by blast
  have none: "\<not> hasJsonFence (content a) \<longrightarrow> brandAnalyses r = Some []"
    using m by (auto simp add: matchJsonFence_None_iff[symmetric])
  have some: "\<forall>body. jsonFenceMatch (content a) body \<longrightarrow>
              (\<exists>parsed. parseBrands lib body = Inr parsed \<and>
                 (\<forall>bs. parsed = Some bs \<longrightarrow> brandAnalyses r = Some bs))"
  proof (intro allI impI)
    fix body assume "jsonFenceMatch (content a) body"
    then have "matchJsonFence (content a) = Some body" by (simp add: matchJsonFence_iff)
    with m have "parseBrands lib body = Inr (brandAnalyses r)" by simp
    then show "\<exists>parsed. parseBrands lib body = Inr parsed \<and>
                 (\<forall>bs. parsed = Some bs \<longrightarrow> brandAnalyses r = Some bs)" by simp
  qed
  from a none some show ?thesis by blast
qed

lemma fencedContent_match: "matchJsonFence fencedContent = Some acmeBrandsJson"
  by (simp add: fencedContent_def fenceOpen_def fenceClose_def acmeBrandsJson_def acmeOnlyJson_def)

lemma fenced_run:
  "\<exists>r. runPerplexityAnalysisForPrompt exampleLib exampleConfig fencedScript = Resolves r"
  by (simp add: runPerplexityAnalysisForPrompt_def genericAIFetch_def fencedScript_def
        unfencedScript_def exampleConfig_def exampleLib_def fencedContent_match)

lemma acmeOnly_run:
  "\<exists>r. runGeminiAnalysisForPrompt exampleLib exampleConfig acmeOnlyScript = Resolves r"
  by (simp add: runGeminiAnalysisForPrompt_def exampleLib_def exampleConfig_def acmeOnlyScript_def)

text \<open>
  Claim C7: for every reply to the Perplexity adapter's first call, the citations the
  adapter returns carry each distinct url once, also when the url stands in both the
  \<^verbatim>\<open>citations\<close> field and the \<^verbatim>\<open>search_results\<close> field: first the urls of the
  \<^verbatim>\<open>citations\<close> field in their order of first occurrence, then the urls of
  \<^verbatim>\<open>search_results\<close> not seen before, and the indices count up from 1.
\<close>

theorem runPerplexity_citations:
  assumes "runPerplexityAnalysisForPrompt lib config nw = Resolves r"
  shows "\<exists>rawData cs. pPrimary nw = HttpOk rawData \<and> citations r = Some cs
           \<and> map url cs =
               firstOccurrences (citedUrls rawData)
                 @ firstOccurrences (filter (\<lambda>u. u \<notin> set (citedUrls rawData)) (resultUrls rawData))
           \<and> distinct (map url cs)
           \<and> set (map url cs) = set (citedUrls rawData) \<union> set (resultUrls rawData)
           \<and> map index cs = [1..<Suc (length cs)]"
proof -
  from assms obtain rawData where raw: "pPrimary nw = HttpOk rawData"
    and c: "citations r = Some (parseCitations rawData)"
    by (auto simp add: runPerplexityAnalysisForPrompt_def genericAIFetch_def
             split: call.splits sum.splits http_result.splits if_splits)
  obtain cs f i where st: "foldl citeResult (foldl citeUrl ([], {}, 1)
        (case pplxCitations rawData of None \<Rightarrow> [] | Some us \<Rightarrow> us))
        (case searchResults rawData of None \<Rightarrow> [] | Some rs \<Rightarrow> rs) = (cs, f, i)"
    by (cases "foldl citeResult (foldl citeUrl ([], {}, 1)
        (case pplxCitations rawData of None \<Rightarrow> [] | Some us \<Rightarrow> us))
        (case searchResults rawData of None \<Rightarrow> [] | Some rs \<Rightarrow> rs)")
  have pc: "parseCitations rawData = cs" unfolding parseCitations_def Let_def st by simp
  from parseCitations_inv[of rawData] st
  have urls: "map url cs = firstOccurrences (citedUrls rawData @ resultUrls rawData)"
    and idx: "map index cs = [1..<Suc (length cs)]"
    by (simp_all add: citeInv_def)
  have d: "distinct (map url cs)"
    and u: "set (map url cs) = set (citedUrls rawData) \<union> set (resultUrls rawData)"
    unfolding urls by (simp_all add: set_firstOccurrences distinct_firstOccurrences)
  have split: "map url cs =
      firstOccurrences (citedUrls rawData)
        @ firstOccurrences (filter (\<lambda>u. u \<notin> set (citedUrls rawData)) (resultUrls rawData))"
    using urls by (simp only: firstOccurrences_append)
  have cit: "citations r = Some cs" using c pc by simp
  show ?thesis
    by (intro exI[of _ rawData] exI[of _ cs] conjI) (fact raw cit split d u idx)+
qed

theorem runPerplexity_citations_witness:
  "\<exists>r cs. runPerplexityAnalysisForPrompt exampleLib exampleConfig unfencedScript = Resolves r
      \<and> citations r = Some cs
      \<and> map url cs = [''https://a.example'', ''https://b.example'', ''https://c.example'']
      \<and> map index cs = [1, 2, 3]"
proof -
  obtain r where r: "runPerplexityAnalysisForPrompt exampleLib exampleConfig unfencedScript = Resolves r"
    using unfenced_run by blast
  from runPerplexity_citations[OF r] obtain rawData cs where
    a: "pPrimary unfencedScript = HttpOk rawData" "citations r = Some cs"
       "map url cs = firstOccurrences (citedUrls rawData)
                 @ firstOccurrences (filter (\<lambda>u. u \<notin> set (citedUrls rawData)) (resultUrls rawData))"
       "map index cs = [1..<Suc (length cs)]"
    by blast
  from a(1) have raw: "rawData = sharedUrlReply" by (simp add: unfencedScript_def)
  have u: "map url cs = [''https://a.example'', ''https://b.example'', ''https://c.example'']"
    unfolding a(3) raw
    by (simp add: citedUrls_def resultUrls_def sharedUrlReply_def firstOccurrences_def)
  then have "length cs = 3" by (metis length_map length_Cons list.size(3) numeral_3_eq_3)
  with a(4) have "map index cs = [1, 2, 3]" by (simp add: upt_rec)
  then have i: "map index cs = [1, 2, 3]" .
  show ?thesis
    by (intro exI[of _ r] exI[of _ cs] conjI) (fact r a(2) u i)+
qed

text \<open>
  Claim C10: when the analysis reply of the Perplexity adapter contains no block fenced
  by three backticks and \<^verbatim>\<open>json\<close>, and the other calls of the invocation succeed, the
  adapter does not throw: it returns a result whose brand list is empty and whose error
  field is not set.
\<close>

theorem runPerplexity_no_fence:
  assumes "pPrimary nw = HttpOk rawData"
    and "pAnalysis nw = HttpOk analysisData"
    and "\<not> hasJsonFence (content analysisData)"
    and "\<forall>i < length (additionalQuestions config). \<exists>a. pQuestions nw i = HttpOk a"
  shows "\<exists>r. runPerplexityAnalysisForPrompt lib config nw = Resolves r
            \<and> brandAnalyses r = Some [] \<and> error r = None"
proof -
  have nomatch: "matchJsonFence (content analysisData) = None"
    using assms(3) matchJsonFence_Some by (cases "matchJsonFence (content analysisData)") auto
  have "\<forall>c \<in> set (map (\<lambda>i. genericAIFetch ''api.perplexity.ai'' (pQuestions nw i))
              [0..<length (additionalQuestions config)]). \<exists>a. c = Replies a"
    using assms(4) by (auto simp add: genericAIFetch_def)
  from collect_ok[OF this] obtain answers where
    "collect (map (\<lambda>i. genericAIFetch ''api.perplexity.ai'' (pQuestions nw i))
              [0..<length (additionalQuestions config)]) = Inr answers" by blast
  then show ?thesis
    using assms(1,2) nomatch
    by (simp add: runPerplexityAnalysisForPrompt_def genericAIFetch_def)
qed

theorem runPerplexity_no_fence_witness:
  "\<not> hasJsonFence ''I found no brands.''
   \<and> (\<exists>r. runPerplexityAnalysisForPrompt exampleLib questionConfig unfencedScript = Resolves r
            \<and> brandAnalyses r = Some [] \<and> error r = None)"
proof -
  have nf: "\<not> hasJsonFence (content \<lparr>content = ''I found no brands.'', usage = None\<rparr>)"
    by (rule no_backtick_no_fence) simp
  have p: "pPrimary unfencedScript = HttpOk sharedUrlReply"
    and a: "pAnalysis unfencedScript = HttpOk \<lparr>content = ''I found no brands.'', usage = None\<rparr>"
    and q: "\<forall>i < length (additionalQuestions questionConfig). \<exists>a. pQuestions unfencedScript i = HttpOk a"
    by (simp_all add: unfencedScript_def)
  from runPerplexity_no_fence[OF p a nf q, of exampleLib] nf show ?thesis by simp
qed

text \<open>
  Claim C4 says that the brand list an adapter returns has exactly one entry for every
  brand of the configuration, whatever the model returns. With known brands Acme and
  Globex and an analysis that reports Acme only, the Gemini adapter returns the Acme entry
  alone: no entry for Globex is added.
\<close>

theorem gemini_omits_brand:
  "map_attempt brandAnalyses (runGeminiAnalysisForPrompt exampleLib exampleConfig acmeOnlyScript)
     = Resolves (Some [acme])
   \<and> \<not> brandComplete exampleConfig [acme]"
  by (simp add: runGeminiAnalysisForPrompt_def exampleLib_def exampleConfig_def acmeOnlyScript_def
        brandComplete_def allBrands_def acme_def)

text \<open>
  Claim C4, amended: the brand list an adapter returns is the list the model's analysis
  parses to, unchanged: the parsed array for Gemini; the \<^verbatim>\<open>brands\<close> array of the parsed
  object for OpenAI and for the web search adapter, or the empty list when that key is
  absent (for the web search adapter also when the reply has no content); for Perplexity
  the empty list when the reply has no fenced block, and otherwise the \<^verbatim>\<open>brands\<close> array of
  the object in the first fenced block (the leftmost, with the shortest body) when the
  object has one. No adapter adds an entry for a brand the model left out.
\<close>

theorem adapters_return_parsed_brands:
  "(runGeminiAnalysisForPrompt lib config gnet = Resolves r \<longrightarrow>
      (\<exists>a bs. gAnalysis gnet = Replies a \<and> parseArray lib (gText a) = Inr bs
            \<and> brandAnalyses r = Some bs))
   \<and> (runOpenAIAnalysisForPrompt lib config onet = Resolves r \<longrightarrow>
      (\<exists>a parsed. oAnalysis onet = HttpOk a \<and> parseBrands lib (content a) = Inr parsed
            \<and> brandAnalyses r = Some (case parsed of None \<Rightarrow> [] | Some bs \<Rightarrow> bs)))
   \<and> (runOpenAIWebSearchAnalysisForPrompt lib config wnet = Resolves r \<longrightarrow>
      (\<exists>a. wAnalysis wnet = HttpOk a \<and>
           (if truthy (messageText a)
            then \<exists>parsed. parseBrands lib (case messageText a of Some c \<Rightarrow> c | None \<Rightarrow> []) = Inr parsed
                   \<and> brandAnalyses r = Some (case parsed of None \<Rightarrow> [] | Some bs \<Rightarrow> bs)
            else brandAnalyses r = Some [])))
   \<and> (runPerplexityAnalysisForPrompt lib config pnet = Resolves r \<longrightarrow>
      (\<exists>a. pAnalysis pnet = HttpOk a \<and>
           (\<not> hasJsonFence (content a) \<longrightarrow> brandAnalyses r = Some []) \<and>
           (\<forall>body. jsonFenceMatch (content a) body \<longrightarrow>
              (\<exists>parsed. parseBrands lib body = Inr parsed \<and>
                 (\<forall>bs. parsed = Some bs \<longrightarrow> brandAnalyses r = Some bs)))))"
proof (intro conjI impI)
  assume "runGeminiAnalysisForPrompt lib config gnet = Resolves r"
  then show "\<exists>a bs. gAnalysis gnet = Replies a \<and> parseArray lib (gText a) = Inr bs
            \<and> brandAnalyses r = Some bs"
    by (rule gemini_brands)
next
  assume "runOpenAIAnalysisForPrompt lib config onet = Resolves r"
  then show "\<exists>a parsed. oAnalysis onet = HttpOk a \<and> parseBrands lib (content a) = Inr parsed
            \<and> brandAnalyses r = Some (case parsed of None \<Rightarrow> [] | Some bs \<Rightarrow> bs)"
    by (rule openai_brands)
next
  assume "runOpenAIWebSearchAnalysisForPrompt lib config wnet = Resolves r"
  then show "\<exists>a. wAnalysis wnet = HttpOk a \<and>
           (if truthy (messageText a)
            then \<exists>parsed. parseBrands lib (case messageText a of Some c \<Rightarrow> c | None \<Rightarrow> []) = Inr parsed
                   \<and> brandAnalyses r = Some (case parsed of None \<Rightarrow> [] | Some bs \<Rightarrow> bs)
            else brandAnalyses r = Some [])"
    by (rule websearch_brands)
next
  assume "runPerplexityAnalysisForPrompt lib config pnet = Resolves r"
  then show "\<exists>a. pAnalysis pnet = HttpOk a \<and>
           (\<not> hasJsonFence (content a) \<longrightarrow> brandAnalyses r = Some []) \<and>
           (\<forall>body. jsonFenceMatch (content a) body \<longrightarrow>
              (\<exists>parsed. parseBrands lib body = Inr parsed \<and>
                 (\<forall>bs. parsed = Some bs \<longrightarrow> brandAnalyses r = Some bs)))"
    by (rule perplexity_brands)
qed

theorem adapters_return_parsed_brands_witness:
  "(\<exists>r. runGeminiAnalysisForPrompt exampleLib exampleConfig acmeOnlyScript = Resolves r
       \<and> brandAnalyses r = Some [acme])
   \<and> jsonFenceMatch fencedContent acmeBrandsJson
   \<and> (\<exists>r. runPerplexityAnalysisForPrompt exampleLib exampleConfig fencedScript = Resolves r
       \<and> brandAnalyses r = Some [acme])"
proof -
  obtain r where r: "runGeminiAnalysisForPrompt exampleLib exampleConfig acmeOnlyScript = Resolves r"
    using acmeOnly_run by blast
  from adapters_return_parsed_brands[of exampleLib exampleConfig acmeOnlyScript r] r
  obtain a bs where "gAnalysis acmeOnlyScript = Replies a" "parseArray exampleLib (gText a) = Inr bs"
    "brandAnalyses r = Some bs" by blast
  then have "brandAnalyses r = Some [acme]"
    by (auto simp add: acmeOnlyScript_def exampleLib_def)
  with r have gemini: "\<exists>r. runGeminiAnalysisForPrompt exampleLib exampleConfig acmeOnlyScript = Resolves r
       \<and> brandAnalyses r = Some [acme]" by blast
  have m: "jsonFenceMatch fencedContent acmeBrandsJson"
    using fencedContent_match by (simp add: matchJsonFence_iff)
  obtain q where q: "runPerplexityAnalysisForPrompt exampleLib exampleConfig fencedScript = Resolves q"
    using fenced_run by blast
  from adapters_return_parsed_brands[of exampleLib exampleConfig _ q _ _ fencedScript] q
  obtain c where c: "pAnalysis fencedScript = HttpOk c"
    and fenced: "\<forall>body. jsonFenceMatch (content c) body \<longrightarrow>
              (\<exists>parsed. parseBrands exampleLib body = Inr parsed \<and>
                 (\<forall>bs. parsed = Some bs \<longrightarrow> brandAnalyses q = Some bs))"
    by blast
  from c have "content c = fencedContent" by (auto simp add: fencedScript_def)
  with fenced m obtain parsed where "parseBrands exampleLib acmeBrandsJson = Inr parsed"
    and "\<forall>bs. parsed = Some bs \<longrightarrow> brandAnalyses q = Some bs" by auto
  then have "brandAnalyses q = Some [acme]" by (auto simp add: exampleLib_def)
  with q have perplexity: "\<exists>r. runPerplexityAnalysisForPrompt exampleLib exampleConfig fencedScript = Resolves r
       \<and> brandAnalyses r = Some [acme]" by blast
  from gemini m perplexity show ?thesis by blast
qed

section \<open>Verification: the results of a run\<close>

lemma retryWithBackoff_returned:
  "snd (retryWithBackoff fn r) = Returned v \<Longrightarrow> \<exists>k. fn k = Resolves v"
  using retryLoop_closed[of 1 r fn None]
  by (auto simp add: retryWithBackoff_def split: attempt.splits)

lemma retryWithBackoff_never_null: "snd (retryWithBackoff fn r) \<noteq> ThrewNull"
  using retryLoop_never_null[of 1 r fn None] by (simp add: retryWithBackoff_def)

lemma gemini_provider:
  "runGeminiAnalysisForPrompt lib config gnet = Resolves r \<Longrightarrow> provider r = Gemini"
  by (auto simp add: runGeminiAnalysisForPrompt_def split: call.splits sum.splits)

lemma openai_provider:
  "runOpenAIAnalysisForPrompt lib config onet = Resolves r \<Longrightarrow> provider r = OpenAI"
  by (auto simp add: runOpenAIAnalysisForPrompt_def split: call.splits sum.splits)

lemma websearch_provider:
  "runOpenAIWebSearchAnalysisForPrompt lib config wnet = Resolves r \<Longrightarrow> provider r = OpenAIWebSearch"
  by (auto simp add: runOpenAIWebSearchAnalysisForPrompt_def Let_def
           split: call.splits sum.splits option.splits if_splits)

lemma perplexity_provider:
  "runPerplexityAnalysisForPrompt lib config pnet = Resolves r \<Longrightarrow> provider r = Perplexity"
  by (auto simp add: runPerplexityAnalysisForPrompt_def split: call.splits sum.splits option.splits)

lemma providerFunction_provider:
  "providerFunction lib config nw pIndex i prov k = Resolves r \<Longrightarrow> provider r = prov"
  by (cases prov)
     (auto dest: gemini_provider openai_provider websearch_provider perplexity_provider)

lemma unitOutcome_provider:
  assumes "unitOutcome lib config nw pIndex i prov = Inr r"
  shows "provider r = prov"
proof (cases "snd (retryWithBackoff (providerFunction lib config nw pIndex i prov) 2)")
  case (Returned r')
  with assms have "r' = r" by (simp add: unitOutcome_def)
  with retryWithBackoff_returned[OF Returned] providerFunction_provider show ?thesis by blast
next
  case (Threw e)
  with assms show ?thesis
    by (auto simp add: unitOutcome_def errorResponse_def split: option.splits)
next
  case ThrewNull
  then show ?thesis using retryWithBackoff_never_null by blast
qed

lemma unitOutcome_rejects:
  assumes "unitOutcome lib config nw pIndex i prov = Inl t"
  shows "\<exists>e. snd (retryWithBackoff (providerFunction lib config nw pIndex i prov) 2) = Threw e
           \<and> stringifyThrows lib e = Some t"
proof (cases "snd (retryWithBackoff (providerFunction lib config nw pIndex i prov) 2)")
  case (Returned r')
  with assms show ?thesis by (simp add: unitOutcome_def)
next
  case (Threw e)
  with assms show ?thesis by (auto simp add: unitOutcome_def split: option.splits)
next
  case ThrewNull
  then show ?thesis using retryWithBackoff_never_null by blast
qed

lemma snd_runTask: "snd (runTask lib config nw pIndex i prov tr) = unitOutcome lib config nw pIndex i prov"
  by (simp add: runTask_def unitOutcome_def split_beta Let_def split: outcome.splits option.splits)

lemma runTasks_results:
  "snd (runTasks lib config nw pIndex (enumerate k ps) tr) = Inr rs \<Longrightarrow>
   length rs = length ps \<and>
   (\<forall>j < length ps. unitOutcome lib config nw pIndex (k + j) (ps ! j) = Inr (rs ! j))"
proof (induction ps arbitrary: k tr rs)
  case Nil
  then show ?case by simp
next
  case (Cons prov ps)
  obtain tr1 res where rt: "runTask lib config nw pIndex k prov tr = (tr1, res)"
    by (cases "runTask lib config nw pIndex k prov tr")
  obtain tr2 res2 where
    rest: "runTasks lib config nw pIndex (enumerate (Suc k) ps) tr1 = (tr2, res2)"
    by (cases "runTasks lib config nw pIndex (enumerate (Suc k) ps) tr1")
  from Cons.prems rt rest obtain r rs' where res: "res = Inr r" and res2: "res2 = Inr rs'"
    and rs: "rs = r # rs'"
    by (cases res; cases res2) simp_all
  from snd_runTask[of lib config nw pIndex k prov tr] rt res
  have u: "unitOutcome lib config nw pIndex k prov = Inr r" by simp
  from Cons.IH[of "Suc k" tr1 rs'] rest res2
  have ih: "length rs' = length ps"
    "\<forall>j < length ps. unitOutcome lib config nw pIndex (Suc k + j) (ps ! j) = Inr (rs' ! j)"
    by simp_all
  have "\<forall>j < length (prov # ps).
      unitOutcome lib config nw pIndex (k + j) ((prov # ps) ! j) = Inr (rs ! j)"
  proof (intro allI impI)
    fix j assume "j < length (prov # ps)"
    then show "unitOutcome lib config nw pIndex (k + j) ((prov # ps) ! j) = Inr (rs ! j)"
      using u ih(2) rs by (cases j) auto
  qed
  then show ?case using ih(1) rs by simp
qed

lemma runTasks_rejects:
  "snd (runTasks lib config nw pIndex l tr) = Inl t \<Longrightarrow>
   \<exists>i prov. (i, prov) \<in> set l \<and> unitOutcome lib config nw pIndex i prov = Inl t"
proof (induction l arbitrary: tr)
  case Nil
  then show ?case by simp
next
  case (Cons x l)
  obtain i prov where x: "x = (i, prov)" by (cases x)
  obtain tr1 res where rt: "runTask lib config nw pIndex i prov tr = (tr1, res)"
    by (cases "runTask lib config nw pIndex i prov tr")
  from snd_runTask[of lib config nw pIndex i prov tr] rt
  have u: "unitOutcome lib config nw pIndex i prov = res" by simp
  show ?case
  proof (cases res)
    case (Inl e)
    with Cons.prems x rt have "e = t" by simp
    with u Inl x show ?thesis by auto
  next
    case (Inr r)
    obtain tr2 res2 where rest: "runTasks lib config nw pIndex l tr1 = (tr2, res2)"
      by (cases "runTasks lib config nw pIndex l tr1")
    with Cons.prems x rt Inr have "res2 = Inl t" by (cases res2) simp_all
    with rest have "snd (runTasks lib config nw pIndex l tr1) = Inl t" by simp
    from Cons.IH[OF this] show ?thesis by auto
  qed
qed

lemma firstGuardError_None:
  "firstGuardError config clients ps = None \<longleftrightarrow>
     (\<forall>prov \<in> set ps. dispatchGuard config clients prov = None)"
  by (induction ps) (auto split: option.splits)

lemma firstGuardError_Some:
  "firstGuardError config clients ps = Some e \<Longrightarrow>
     \<exists>prov \<in> set ps. dispatchGuard config clients prov = Some e"
  by (induction ps) (auto split: option.splits)

lemma runPrompt_results:
  assumes "snd (runPrompt lib config clients nw pIndex tr) = Inr rs"
  shows "length rs = length (providers config) \<and>
         (\<forall>i < length (providers config).
            unitOutcome lib config nw pIndex i (providers config ! i) = Inr (rs ! i))"
proof (cases "firstGuardError config clients (providers config)")
  case (Some e)
  with assms show ?thesis by (simp add: runPrompt_def Let_def)
next
  case None
  with assms have "snd (runTasks lib config nw pIndex (enumerate 0 (providers config))
      (foldl (\<lambda>t prov. updateTaskStatus (pIndex, prov) in_progress None None t) tr
         (providers config))) = Inr rs"
    by (simp add: runPrompt_def Let_def)
  from runTasks_results[OF this] show ?thesis by simp
qed

lemma runPrompt_rejects:
  assumes "snd (runPrompt lib config clients nw pIndex tr) = Inl e"
  shows "firstGuardError config clients (providers config) = Some e
       \<or> (\<exists>i < length (providers config).
             unitOutcome lib config nw pIndex i (providers config ! i) = Inl e)"
proof (cases "firstGuardError config clients (providers config)")
  case (Some e')
  with assms show ?thesis by (simp add: runPrompt_def Let_def)
next
  case None
  with assms have "snd (runTasks lib config nw pIndex (enumerate 0 (providers config))
      (foldl (\<lambda>t prov. updateTaskStatus (pIndex, prov) in_progress None None t) tr
         (providers config))) = Inl e"
    by (simp add: runPrompt_def Let_def)
  from runTasks_rejects[OF this] obtain i prov where
    "(i, prov) \<in> set (enumerate 0 (providers config))"
    "unitOutcome lib config nw pIndex i prov = Inl e" by blast
  then have "i < length (providers config)
      \<and> unitOutcome lib config nw pIndex i (providers config ! i) = Inl e"
    by (simp add: in_set_enumerate_eq)
  then show ?thesis by blast
qed

lemma runPrompts_results:
  "snd (runPrompts lib config clients nw (enumerate k qs) tr acc) = Inr out \<Longrightarrow>
   \<exists>rs. out = acc @ rs \<and> length rs = length qs \<and>
     (\<forall>j < length qs. prompt (rs ! j) = qs ! j \<and>
        length (providerResponses (rs ! j)) = length (providers config) \<and>
        (\<forall>i < length (providers config).
           unitOutcome lib config nw (k + j) i (providers config ! i)
             = Inr (providerResponses (rs ! j) ! i)))"
proof (induction qs arbitrary: k tr acc)
  case Nil
  then show ?case by simp
next
  case (Cons q qs)
  obtain tr1 res where rp: "runPrompt lib config clients nw k tr = (tr1, res)"
    by (cases "runPrompt lib config clients nw k tr")
  from Cons.prems rp obtain ps where res: "res = Inr ps" by (cases res) simp_all
  from runPrompt_results[of lib config clients nw k tr ps] rp res
  have ps: "length ps = length (providers config)"
    "\<forall>i < length (providers config).
        unitOutcome lib config nw k i (providers config ! i) = Inr (ps ! i)"
    by simp_all
  let ?r = "\<lparr>prompt = q, providerResponses = ps\<rparr>"
  from Cons.prems rp res
  have "snd (runPrompts lib config clients nw (enumerate (Suc k) qs) tr1 (acc @ [?r])) = Inr out"
    by simp
  from Cons.IH[OF this] obtain rs where
    rs: "out = (acc @ [?r]) @ rs" "length rs = length qs"
        "\<forall>j < length qs. prompt (rs ! j) = qs ! j \<and>
              length (providerResponses (rs ! j)) = length (providers config) \<and>
              (\<forall>i < length (providers config).
                 unitOutcome lib config nw (Suc k + j) i (providers config ! i)
                   = Inr (providerResponses (rs ! j) ! i))"
    by blast
  have "\<forall>j < length (q # qs). prompt ((?r # rs) ! j) = (q # qs) ! j \<and>
              length (providerResponses ((?r # rs) ! j)) = length (providers config) \<and>
              (\<forall>i < length (providers config).
                 unitOutcome lib config nw (k + j) i (providers config ! i)
                   = Inr (providerResponses ((?r # rs) ! j) ! i))"
  proof (intro allI impI)
    fix j assume "j < length (q # qs)"
    then show "prompt ((?r # rs) ! j) = (q # qs) ! j \<and>
              length (providerResponses ((?r # rs) ! j)) = length (providers config) \<and>
              (\<forall>i < length (providers config).
                 unitOutcome lib config nw (k + j) i (providers config ! i)
                   = Inr (providerResponses ((?r # rs) ! j) ! i))"
      using ps rs(3) by (cases j) auto
  qed
  then show ?case using rs(1,2) by (intro exI[of _ "?r # rs"]) simp
qed

lemma runPrompts_rejects:
  "snd (runPrompts lib config clients nw l tr acc) = Inl e \<Longrightarrow>
   firstGuardError config clients (providers config) = Some e
   \<or> (\<exists>p q. (p, q) \<in> set l \<and>
         (\<exists>i < length (providers config).
             unitOutcome lib config nw p i (providers config ! i) = Inl e))"
proof (induction l arbitrary: tr acc)
  case Nil
  then show ?case by simp
next
  case (Cons x l)
  obtain pIndex q where x: "x = (pIndex, q)" by (cases x)
  obtain tr1 res where rp: "runPrompt lib config clients nw pIndex tr = (tr1, res)"
    by (cases "runPrompt lib config clients nw pIndex tr")
  show ?case
  proof (cases res)
    case (Inl e')
    with Cons.prems x rp have "e' = e" by simp
    with Inl rp runPrompt_rejects[of lib config clients nw pIndex tr e]
    have "firstGuardError config clients (providers config) = Some e
       \<or> (\<exists>i < length (providers config).
             unitOutcome lib config nw pIndex i (providers config ! i) = Inl e)"
      by simp
    then show ?thesis using x by auto
  next
    case (Inr rs)
    with Cons.prems x rp
    have "snd (runPrompts lib config clients nw l tr1
             (acc @ [\<lparr>prompt = q, providerResponses = rs\<rparr>])) = Inl e"
      by simp
    from Cons.IH[OF this] show ?thesis by auto
  qed
qed

lemma truthy_not_None: "truthy k \<Longrightarrow> k \<noteq> None"
  by (cases k) (simp_all add: truthy_def)

lemma initializeClients_fields:
  assumes "initializeClients config = Inr clients"
  shows "geminiClient clients =
           (if Gemini \<in> set (providers config) then geminiKey (apiKeys config) else None)"
    and "openaiClient clients =
           (if (OpenAI \<in> set (providers config) \<or> OpenAIWebSearch \<in> set (providers config))
               \<and> truthy (openaiKey (apiKeys config))
            then openaiKey (apiKeys config) else None)"
    and "perplexityClient clients =
           (if Perplexity \<in> set (providers config) \<and> truthy (perplexityKey (apiKeys config))
            then perplexityKey (apiKeys config) else None)"
    and "Gemini \<in> set (providers config) \<Longrightarrow> truthy (geminiKey (apiKeys config))"
proof -
  have ok: "\<not> (Gemini \<in> set (providers config) \<and> \<not> truthy (geminiKey (apiKeys config)))"
    using assms by (auto simp add: initializeClients_def split: if_splits)
  then have "clients = \<lparr>geminiClient =
           (if Gemini \<in> set (providers config) then geminiKey (apiKeys config) else None),
         openaiClient =
           (if (OpenAI \<in> set (providers config) \<or> OpenAIWebSearch \<in> set (providers config))
               \<and> truthy (openaiKey (apiKeys config))
            then openaiKey (apiKeys config) else None),
         perplexityClient =
           (if Perplexity \<in> set (providers config) \<and> truthy (perplexityKey (apiKeys config))
            then perplexityKey (apiKeys config) else None)\<rparr>"
    using assms unfolding initializeClients_def by (simp only: if_False sum.inject)
  then show "geminiClient clients =
           (if Gemini \<in> set (providers config) then geminiKey (apiKeys config) else None)"
    and "openaiClient clients =
           (if (OpenAI \<in> set (providers config) \<or> OpenAIWebSearch \<in> set (providers config))
               \<and> truthy (openaiKey (apiKeys config))
            then openaiKey (apiKeys config) else None)"
    and "perplexityClient clients =
           (if Perplexity \<in> set (providers config) \<and> truthy (perplexityKey (apiKeys config))
            then perplexityKey (apiKeys config) else None)"
    by simp_all
  show "Gemini \<in> set (providers config) \<Longrightarrow> truthy (geminiKey (apiKeys config))"
    using ok by blast
qed

lemma dispatchGuard_ready:
  assumes "initializeClients config = Inr clients"
    and "prov \<in> set (providers config)"
    and "truthy (credentialOf config prov)" and "truthy (models config prov)"
  shows "dispatchGuard config clients prov = None"
proof (cases prov)
  case Gemini
  then show ?thesis
    using assms(2,3,4) initializeClients_fields(1)[OF assms(1)] truthy_not_None[OF assms(3)]
    by simp
next
  case OpenAI
  then show ?thesis
    using assms(2,3,4) initializeClients_fields(2)[OF assms(1)] by auto
next
  case OpenAIWebSearch
  then show ?thesis
    using assms(2,3,4) initializeClients_fields(2)[OF assms(1)] by auto
next
  case Perplexity
  then show ?thesis
    using assms(2,3,4) initializeClients_fields(3)[OF assms(1)] by auto
qed

lemma configured_clients:
  assumes "configured config"
  shows "\<exists>clients. initializeClients config = Inr clients \<and>
           firstGuardError config clients (providers config) = None"
proof -
  have "\<not> (Gemini \<in> set (providers config) \<and> \<not> truthy (geminiKey (apiKeys config)))"
    using assms by (auto simp add: configured_def list_all_iff)
  then obtain clients where c: "initializeClients config = Inr clients"
    by (simp add: initializeClients_def)
  have "\<forall>prov \<in> set (providers config). dispatchGuard config clients prov = None"
    using assms dispatchGuard_ready[OF c] by (simp add: configured_def list_all_iff)
  then show ?thesis using c by (simp add: firstGuardError_None)
qed

lemma runAnalysis_results:
  assumes "runAnalysis lib config nw = (snaps, Inr rs)"
  shows "length rs = length (prompts config) \<and>
         (\<forall>p < length (prompts config). prompt (rs ! p) = prompts config ! p \<and>
            length (providerResponses (rs ! p)) = length (providers config) \<and>
            (\<forall>i < length (providers config).
               unitOutcome lib config nw p i (providers config ! i)
                 = Inr (providerResponses (rs ! p) ! i)))"
proof -
  from assms obtain clients where c: "initializeClients config = Inr clients"
    by (cases "initializeClients config") (auto simp add: runAnalysis_def)
  let ?tr0 = "\<lparr>tasks = buildTasks config, emitted = [buildTasks config]\<rparr>"
  from assms c
  have "snd (runPrompts lib config clients nw (enumerate 0 (prompts config)) ?tr0 []) = Inr rs"
    by (simp add: runAnalysis_def Let_def split_beta)
  from runPrompts_results[OF this] show ?thesis by simp
qed

lemma exampleConfig_configured: "configured exampleConfig"
  by (simp add: configured_def exampleConfig_def truthy_def)

lemma exampleLib_serialises: "stringifyThrows exampleLib x = None"
  by (simp add: exampleLib_def)

lemma dispatchGuard_configurationError:
  "dispatchGuard config clients prov = Some e \<Longrightarrow> configurationError e"
  by (cases prov) (auto simp add: configurationError_def split: if_splits)

text \<open>
  What the orchestrator achieves. Whenever a run returns, it returns one result per prompt,
  in prompt order, each with one result per selected provider, in selection order.
\<close>

lemma runAnalysis_shape:
  assumes "runAnalysis lib config nw = (snaps, Inr rs)"
  shows "length rs = length (prompts config) \<and> map prompt rs = prompts config
       \<and> (\<forall>r \<in> set rs. length (providerResponses r) = length (providers config)
             \<and> map provider (providerResponses r) = providers config)"
proof -
  from runAnalysis_results[OF assms]
  have len: "length rs = length (prompts config)"
    and each: "\<forall>p < length (prompts config). prompt (rs ! p) = prompts config ! p \<and>
            length (providerResponses (rs ! p)) = length (providers config) \<and>
            (\<forall>i < length (providers config).
               unitOutcome lib config nw p i (providers config ! i)
                 = Inr (providerResponses (rs ! p) ! i))"
    by simp_all
  have prompts_eq: "map prompt rs = prompts config"
    using len each by (intro nth_equalityI) simp_all
  have inner: "\<forall>r \<in> set rs. length (providerResponses r) = length (providers config)
               \<and> map provider (providerResponses r) = providers config"
  proof
    fix r assume "r \<in> set rs"
    then obtain p where p: "p < length rs" "r = rs ! p" by (auto simp add: in_set_conv_nth)
    with len each have l: "length (providerResponses r) = length (providers config)"
      and u: "\<forall>i < length (providers config).
               unitOutcome lib config nw p i (providers config ! i)
                 = Inr (providerResponses r ! i)"
      by simp_all
    have "map provider (providerResponses r) = providers config"
    proof (intro nth_equalityI)
      show "length (map provider (providerResponses r)) = length (providers config)"
        using l by simp
    next
      fix i assume "i < length (map provider (providerResponses r))"
      then have i: "i < length (providers config)" using l by simp
      with u have "unitOutcome lib config nw p i (providers config ! i)
                 = Inr (providerResponses r ! i)" by simp
      from unitOutcome_provider[OF this]
      show "map provider (providerResponses r) ! i = providers config ! i"
        using i l by simp
    qed
    with l show "length (providerResponses r) = length (providers config)
               \<and> map provider (providerResponses r) = providers config" by simp
  qed
  show ?thesis using len prompts_eq inner by simp
qed

text \<open>
  A run rejects in two ways only: with a configuration error, for a configuration in
  which a selected provider lacks its credential or model identifier; or with what
  \<^verbatim>\<open>JSON.stringify\<close> threw on the exception of a unit (line 545).
\<close>

lemma runAnalysis_rejects:
  assumes "runAnalysis lib config nw = (snaps, Inl e)"
  shows "(configurationError e \<and> \<not> configured config)
       \<or> (\<exists>p i x. p < length (prompts config) \<and> i < length (providers config)
             \<and> snd (retryWithBackoff
                      (providerFunction lib config nw p i (providers config ! i)) 2) = Threw x
             \<and> stringifyThrows lib x = Some e)"
proof (cases "initializeClients config")
  case (Inl e')
  then have e': "e' = JsError GenericError ''Google Gemini API Key is missing.''"
    and g: "Gemini \<in> set (providers config)" "\<not> truthy (geminiKey (apiKeys config))"
    by (auto simp add: initializeClients_def split: if_splits)
  from Inl assms have "e = e'" by (simp add: runAnalysis_def)
  with e' have "configurationError e" by (simp add: configurationError_def)
  moreover have "\<not> configured config"
  proof
    assume "configured config"
    with g(1) have "truthy (credentialOf config Gemini)"
      by (auto simp add: configured_def list_all_iff)
    with g(2) show False by simp
  qed
  ultimately show ?thesis by simp
next
  case (Inr clients)
  let ?tr0 = "\<lparr>tasks = buildTasks config, emitted = [buildTasks config]\<rparr>"
  from Inr assms
  have "snd (runPrompts lib config clients nw (enumerate 0 (prompts config)) ?tr0 []) = Inl e"
    by (simp add: runAnalysis_def Let_def split_beta)
  from runPrompts_rejects[OF this] show ?thesis
  proof
    assume g: "firstGuardError config clients (providers config) = Some e"
    from firstGuardError_Some[OF g] dispatchGuard_configurationError
    have "configurationError e" by blast
    moreover have "\<not> configured config"
    proof
      assume "configured config"
      from configured_clients[OF this] Inr g show False by simp
    qed
    ultimately show ?thesis by simp
  next
    assume "\<exists>p q. (p, q) \<in> set (enumerate 0 (prompts config)) \<and>
         (\<exists>i < length (providers config).
             unitOutcome lib config nw p i (providers config ! i) = Inl e)"
    then obtain p q i where pq: "(p, q) \<in> set (enumerate 0 (prompts config))"
      and i: "i < length (providers config)"
      and u: "unitOutcome lib config nw p i (providers config ! i) = Inl e"
      by blast
    from pq have "p < length (prompts config)" by (simp add: in_set_enumerate_eq)
    with i unitOutcome_rejects[OF u] show ?thesis by blast
  qed
qed

text \<open>
  So a run returns for every configuration whose selected providers each have a
  credential and a model identifier, whatever the network answers, as long as every
  exception serialises.
\<close>

lemma runAnalysis_returns:
  assumes "configured config" and "\<forall>x. stringifyThrows lib x = None"
  shows "\<exists>snaps rs. runAnalysis lib config nw = (snaps, Inr rs)"
proof (cases "snd (runAnalysis lib config nw)")
  case (Inl e)
  then have "runAnalysis lib config nw = (fst (runAnalysis lib config nw), Inl e)"
    by (simp add: prod_eq_iff)
  from runAnalysis_rejects[OF this] assms show ?thesis by auto
next
  case (Inr rs)
  then have "runAnalysis lib config nw = (fst (runAnalysis lib config nw), Inr rs)"
    by (simp add: prod_eq_iff)
  then show ?thesis by blast
qed

text \<open>
  A run that returns holds, for every unit whose adapter threw out of the retry engine,
  the result synthesised from the exception (line 546).
\<close>

lemma runAnalysis_error_results:
  assumes "runAnalysis lib config nw = (snaps, Inr rs)"
    and "p < length (prompts config)" and "i < length (providers config)"
    and "snd (retryWithBackoff
                (providerFunction lib config nw p i (providers config ! i)) 2) = Threw e"
  shows "providerResponses (rs ! p) ! i =
           \<lparr>provider = providers config ! i, response = [], brandAnalyses = Some [],
            additionalAnswers = [], rawResponse = Some (ErrorDump e),
            error = Some (message e), citations = None, tokenUsage = None,
            analysisTokenUsage = None\<rparr>"
proof -
  from runAnalysis_results[OF assms(1)] assms(2,3)
  have "unitOutcome lib config nw p i (providers config ! i)
          = Inr (providerResponses (rs ! p) ! i)" by simp
  with assms(4) show ?thesis
    by (auto simp add: unitOutcome_def errorResponse_def split: option.splits)
qed

lemma twoByTwoConfig_configured: "configured twoByTwoConfig"
  by (simp add: configured_def twoByTwoConfig_def truthy_def)

text \<open>
  On the network where every call fails, with two prompts and two providers, a runtime
  that serialises the errors gives two results in prompt order, each with the results of
  Gemini and OpenAI in that order.
\<close>

lemma twoByTwo_serialised_run:
  "\<exists>snaps rs. runAnalysis exampleLib twoByTwoConfig overloadedNet = (snaps, Inr rs)
      \<and> map prompt rs = [''Who leads PIM software?'', ''Which PIM is the cheapest?'']
      \<and> map (map provider \<circ> providerResponses) rs = [[Gemini, OpenAI], [Gemini, OpenAI]]"
proof -
  have "\<forall>x. stringifyThrows exampleLib x = None" by (simp add: exampleLib_serialises)
  from runAnalysis_returns[OF twoByTwoConfig_configured this, of overloadedNet]
  obtain snaps rs where run: "runAnalysis exampleLib twoByTwoConfig overloadedNet = (snaps, Inr rs)"
    by blast
  from runAnalysis_shape[OF run]
  have len: "length rs = 2"
    and ps: "map prompt rs = [''Who leads PIM software?'', ''Which PIM is the cheapest?'']"
    and inner: "\<forall>r \<in> set rs. map provider (providerResponses r) = [Gemini, OpenAI]"
    by (simp_all add: twoByTwoConfig_def)
  from len obtain a b where rs: "rs = [a, b]"
    by (cases rs; cases "tl rs") auto
  with inner have provs: "map (map provider \<circ> providerResponses) rs = [[Gemini, OpenAI], [Gemini, OpenAI]]"
    by simp
  show ?thesis
    by (intro exI[of _ snaps] exI[of _ rs] conjI) (fact run ps provs)+
qed

lemma runTasks_first_rejects:
  assumes "unitOutcome lib config nw pIndex i prov = Inl t"
  shows "snd (runTasks lib config nw pIndex ((i, prov) # l) tr) = Inl t"
proof -
  obtain tr1 res where rt: "runTask lib config nw pIndex i prov tr = (tr1, res)"
    by (cases "runTask lib config nw pIndex i prov tr")
  from snd_runTask[of lib config nw pIndex i prov tr] rt assms have "res = Inl t" by simp
  with rt show ?thesis by simp
qed

lemma runAnalysis_first_unit_rejects:
  assumes "initializeClients config = Inr clients"
    and "firstGuardError config clients (providers config) = None"
    and "prompts config = q # qs" and "providers config = prov # rest"
    and "unitOutcome lib config nw 0 0 prov = Inl t"
  shows "snd (runAnalysis lib config nw) = Inl t"
proof -
  let ?tr0 = "\<lparr>tasks = buildTasks config, emitted = [buildTasks config]\<rparr>"
  let ?tr1 = "foldl (\<lambda>t prov. updateTaskStatus (0, prov) in_progress None None t) ?tr0
                (providers config)"
  have en: "enumerate 0 (providers config) = (0, prov) # enumerate 1 rest"
    by (simp add: assms(4))
  have "snd (runTasks lib config nw 0 (enumerate 0 (providers config)) ?tr1) = Inl t"
    unfolding en by (rule runTasks_first_rejects[OF assms(5)])
  then have "snd (runPrompt lib config clients nw 0 ?tr0) = Inl t"
    by (simp add: runPrompt_def Let_def assms(2))
  then have "snd (runPrompts lib config clients nw (enumerate 0 (prompts config)) ?tr0 []) = Inl t"
    unfolding assms(3) by (cases "runPrompt lib config clients nw 0 ?tr0") auto
  then show ?thesis by (simp add: runAnalysis_def assms(1) Let_def split_beta)
qed

lemma overloaded_gemini_throws:
  "retryWithBackoff (providerFunction lib config overloadedNet p i Gemini) 2
     = ([Call 1], Threw bigintError)"
proof -
  have fn: "providerFunction lib config overloadedNet p i Gemini 1 = Rejects (ErrorObject bigintError)"
    by (simp add: runGeminiAnalysisForPrompt_def overloadedNet_def geminiCatch_def bigintError_def)
  have nr: "\<not> isRetryableError (ErrorObject bigintError)"
    by (simp add: isRetryableError_def bigintError_def)
  show ?thesis
    unfolding retryWithBackoff_def
    using retryLoop_stop[where fn = "providerFunction lib config overloadedNet p i Gemini"
            and a = 1 and r = 2 and le = None and e = "ErrorObject bigintError"] fn nr
    by simp
qed

text \<open>
  Claim C1 says that for every configuration with P prompts and N selected providers the
  run returns exactly P results, each with exactly N provider results, also when every
  provider call fails. The \<^verbatim>\<open>catch\<close> block that turns the failure of a unit into a result
  serialises the exception outside any guard (line 545). With two prompts and two
  providers, each with its credential and model identifier, on a network where every call
  fails and the error of the Gemini client holds a BigInt, the run returns nothing: it
  rejects with the TypeError of \<^verbatim>\<open>JSON.stringify\<close>.
\<close>

theorem unserialisable_failure_rejects_run:
  "configured twoByTwoConfig
   \<and> length (prompts twoByTwoConfig) = 2 \<and> length (providers twoByTwoConfig) = 2
   \<and> snd (runAnalysis bigintLib twoByTwoConfig overloadedNet)
       = Inl (JsError TypeError ''Do not know how to serialize a BigInt'')"
proof -
  have clients: "initializeClients twoByTwoConfig =
      Inr \<lparr>geminiClient = Some ''key'', openaiClient = Some ''sk-key'', perplexityClient = None\<rparr>"
    by (simp add: initializeClients_def twoByTwoConfig_def truthy_def)
  have guard: "firstGuardError twoByTwoConfig
      \<lparr>geminiClient = Some ''key'', openaiClient = Some ''sk-key'', perplexityClient = None\<rparr>
      (providers twoByTwoConfig) = None"
    by (simp add: twoByTwoConfig_def truthy_def)
  have ps: "prompts twoByTwoConfig = [''Who leads PIM software?'', ''Which PIM is the cheapest?'']"
    and provs: "providers twoByTwoConfig = [Gemini, OpenAI]"
    by (simp_all add: twoByTwoConfig_def)
  have unit: "unitOutcome bigintLib twoByTwoConfig overloadedNet 0 0 Gemini
      = Inl (JsError TypeError ''Do not know how to serialize a BigInt'')"
    by (simp add: unitOutcome_def overloaded_gemini_throws bigintLib_def)
  from runAnalysis_first_unit_rejects[OF clients guard ps provs unit]
  show ?thesis using twoByTwoConfig_configured by (simp add: ps provs)
qed

section \<open>Verification: the task tracker\<close>

lemma findIndex_Some:
  "find P xs = Some x \<Longrightarrow>
   \<exists>i. findIndex P xs = Some i \<and> i < length xs \<and> xs ! i = x \<and> P x \<and> (\<forall>j < i. \<not> P (xs ! j))"
proof (induction xs)
  case Nil
  then show ?case by simp
next
  case (Cons y ys)
  show ?case
  proof (cases "P y")
    case True
    with Cons.prems show ?thesis by simp
  next
    case False
    with Cons.prems have "find P ys = Some x" by simp
    from Cons.IH[OF this] obtain i where
      i: "findIndex P ys = Some i" "i < length ys" "ys ! i = x" "P x" "\<forall>j < i. \<not> P (ys ! j)"
      by blast
    have "\<forall>j < Suc i. \<not> P ((y # ys) ! j)"
    proof (intro allI impI)
      fix j assume "j < Suc i"
      then show "\<not> P ((y # ys) ! j)" using False i(5) by (cases j) auto
    qed
    with False i show ?thesis by (intro exI[of _ "Suc i"]) simp
  qed
qed

lemma find_update_first:
  "i < length xs \<Longrightarrow> \<forall>j < i. \<not> P (xs ! j) \<Longrightarrow> P y \<Longrightarrow> find P (xs[i := y]) = Some y"
proof (induction xs arbitrary: i)
  case Nil
  then show ?case by simp
next
  case (Cons x xs)
  show ?case
  proof (cases i)
    case 0
    then show ?thesis using Cons.prems by simp
  next
    case (Suc k)
    from Cons.prems(2) Suc have nx: "\<not> P x" by auto
    have "\<forall>j < k. \<not> P (xs ! j)"
    proof (intro allI impI)
      fix j assume "j < k"
      then have "Suc j < i" using Suc by simp
      from Cons.prems(2)[rule_format, OF this] show "\<not> P (xs ! j)" by simp
    qed
    from Cons.IH[OF _ this Cons.prems(3)] Cons.prems(1) Suc nx show ?thesis by simp
  qed
qed

lemma find_update_other:
  "i < length xs \<Longrightarrow> \<not> P (xs ! i) \<Longrightarrow> \<not> P y \<Longrightarrow> find P (xs[i := y]) = find P xs"
proof (induction xs arbitrary: i)
  case Nil
  then show ?case by simp
next
  case (Cons x xs)
  then show ?case by (cases i) auto
qed

lemma updateTaskStatus_effect:
  assumes "taskState tr tid = Some (s0, r0)"
  shows "\<exists>i new. i < length (tasks tr)
           \<and> tasks (updateTaskStatus tid st err rt tr) = (tasks tr)[i := new]
           \<and> emitted (updateTaskStatus tid st err rt tr) = emitted tr @ [(tasks tr)[i := new]]
           \<and> taskId new = taskId (tasks tr ! i) \<and> description new = description (tasks tr ! i)
           \<and> status (tasks tr ! i) = s0 \<and> retries (tasks tr ! i) = r0
           \<and> status new = st \<and> retries new = (if rt \<noteq> None then rt else r0)
           \<and> taskState (updateTaskStatus tid st err rt tr) tid
               = Some (st, if rt \<noteq> None then rt else r0)
           \<and> (\<forall>tid'. tid' \<noteq> tid \<longrightarrow>
                 taskState (updateTaskStatus tid st err rt tr) tid' = taskState tr tid')"
proof -
  from assms obtain t where t: "find (\<lambda>t. taskId t = tid) (tasks tr) = Some t"
    "status t = s0" "retries t = r0"
    by (auto simp add: taskState_def)
  from findIndex_Some[OF t(1)] obtain i where
    i: "findIndex (\<lambda>t. taskId t = tid) (tasks tr) = Some i" "i < length (tasks tr)"
       "tasks tr ! i = t" "taskId t = tid" "\<forall>j < i. taskId (tasks tr ! j) \<noteq> tid"
    by blast
  let ?new = "t\<lparr>status := st, taskError := (if truthy err then err else taskError t),
                  retries := (if rt \<noteq> None then rt else retries t)\<rparr>"
  let ?tr' = "updateTaskStatus tid st err rt tr"
  have upd: "?tr' = \<lparr>tasks = (tasks tr)[i := ?new], emitted = emitted tr @ [(tasks tr)[i := ?new]]\<rparr>"
    using i(1,3) by (simp add: updateTaskStatus_def Let_def)
  have self: "taskState ?tr' tid = Some (st, if rt \<noteq> None then rt else r0)"
    using find_update_first[of i "tasks tr" "\<lambda>t. taskId t = tid" ?new] i(2,4,5) t(3)
    by (simp add: taskState_def upd)
  have frame: "\<forall>tid'. tid' \<noteq> tid \<longrightarrow> taskState ?tr' tid' = taskState tr tid'"
  proof (intro allI impI)
    fix tid' assume "tid' \<noteq> tid"
    then show "taskState ?tr' tid' = taskState tr tid'"
      using find_update_other[of i "tasks tr" "\<lambda>t. taskId t = tid'" ?new] i(2,3,4)
      by (simp add: taskState_def upd)
  qed
  show ?thesis
    using i(2,3) t(2,3) self frame
    by (intro exI[of _ i] exI[of _ ?new]) (simp add: upd)
qed

lemma updateTaskStatus_legal:
  assumes "wellTracked tr" and "taskState tr tid = Some (s0, r0)"
    and "(s0 = pending \<and> st = in_progress \<and> rt = None)
         \<or> (s0 = in_progress \<and> st = in_progress
             \<and> rt = Some (Suc (case r0 of None \<Rightarrow> 0 | Some c \<Rightarrow> c)))
         \<or> (s0 = in_progress \<and> (st = completed \<or> st = error_status) \<and> rt = None)"
  shows "wellTracked (updateTaskStatus tid st err rt tr)"
proof -
  from updateTaskStatus_effect[OF assms(2), of st err rt] obtain i new where
    e: "i < length (tasks tr)"
       "tasks (updateTaskStatus tid st err rt tr) = (tasks tr)[i := new]"
       "emitted (updateTaskStatus tid st err rt tr) = emitted tr @ [(tasks tr)[i := new]]"
       "taskId new = taskId (tasks tr ! i)" "description new = description (tasks tr ! i)"
       "status (tasks tr ! i) = s0" "retries (tasks tr ! i) = r0"
       "status new = st" "retries new = (if rt \<noteq> None then rt else r0)"
    by blast
  have step: "legalStep (tasks tr ! i) new"
    using assms(3) e(4-9) by (auto simp add: legalStep_def)
  have move: "legalMove (tasks tr) ((tasks tr)[i := new])"
    unfolding legalMove_def using e(1) step by (intro conjI exI[of _ i]) simp_all
  show ?thesis
    using assms(1) move e(2,3)
    by (simp add: wellTracked_def successively_append_iff)
qed


lemma retry_events_tracked:
  "wellTracked tr \<Longrightarrow> taskState tr tid = Some (in_progress, r0) \<Longrightarrow>
   a = Suc (case r0 of None \<Rightarrow> 0 | Some c \<Rightarrow> c) \<Longrightarrow>
   wellTracked (foldl (onRetryEvent tid) tr (fst (retryLoop fn r a le)))
   \<and> (\<exists>r1. taskState (foldl (onRetryEvent tid) tr (fst (retryLoop fn r a le))) tid
             = Some (in_progress, r1))
   \<and> (\<forall>tid'. tid' \<noteq> tid \<longrightarrow>
         taskState (foldl (onRetryEvent tid) tr (fst (retryLoop fn r a le))) tid'
           = taskState tr tid')"
proof (induction fn r a le arbitrary: tr r0 rule: retryLoop.induct)
  case (1 fn r a le)
  show ?case
  proof (cases "a \<le> r + 1")
    case False
    then have "fst (retryLoop fn r a le) = []" by (subst retryLoop.simps) simp
    then show ?thesis using "1.prems" by simp
  next
    case inrange: True
    show ?thesis
    proof (cases "fn a")
      case (Resolves v)
      then show ?thesis using "1.prems" inrange by (simp add: retryLoop_resolves)
    next
      case (Rejects e)
      show ?thesis
      proof (cases "isRetryableError e \<and> a \<le> r")
        case False
        then show ?thesis using "1.prems" inrange Rejects by (simp add: retryLoop_stop)
      next
        case True
        let ?tr1 = "updateTaskStatus tid in_progress None (Some a) tr"
        let ?rest = "fst (retryLoop fn r (a + 1) (Some (toError e)))"
        have evs: "fst (retryLoop fn r a le) =
            Call a # OnRetry (toError e) a # Wait (1000 * 2 ^ (a - 1)) # ?rest"
          using Rejects True by (simp add: retryLoop_retry)
        have fold: "foldl (onRetryEvent tid) tr (fst (retryLoop fn r a le))
            = foldl (onRetryEvent tid) ?tr1 ?rest"
          unfolding evs by simp
        have wt1: "wellTracked ?tr1"
          using updateTaskStatus_legal[OF "1.prems"(1,2), of in_progress "Some a" None] "1.prems"(3)
          by simp
        from updateTaskStatus_effect[OF "1.prems"(2), of in_progress None "Some a"]
        have st1: "taskState ?tr1 tid = Some (in_progress, Some a)"
          and frame1: "\<forall>tid'. tid' \<noteq> tid \<longrightarrow> taskState ?tr1 tid' = taskState tr tid'"
          by auto
        have next_a: "a + 1 = Suc (case Some a of None \<Rightarrow> 0 | Some c \<Rightarrow> c)" by simp
        from "1.IH"[OF inrange Rejects True refl wt1 st1 next_a]
        show ?thesis unfolding fold using frame1 by auto
      qed
    qed
  qed
qed

lemma runTask_tracked:
  assumes "wellTracked tr" and "taskState tr (pIndex, prov) = Some (in_progress, None)"
  shows "wellTracked (fst (runTask lib config nw pIndex i prov tr))
       \<and> (\<forall>tid'. tid' \<noteq> (pIndex, prov) \<longrightarrow>
             taskState (fst (runTask lib config nw pIndex i prov tr)) tid' = taskState tr tid')"
proof -
  let ?tid = "(pIndex, prov)"
  let ?fn = "providerFunction lib config nw pIndex i prov"
  let ?tr1 = "foldl (onRetryEvent ?tid) tr (fst (retryLoop ?fn 2 1 None))"
  from retry_events_tracked[OF assms, of 1 ?fn 2 None]
  obtain r1 where wt1: "wellTracked ?tr1"
    and st1: "taskState ?tr1 ?tid = Some (in_progress, r1)"
    and frame1: "\<forall>tid'. tid' \<noteq> ?tid \<longrightarrow> taskState ?tr1 tid' = taskState tr tid'"
    by auto
  have fin: "\<And>st err. st = completed \<or> st = error_status \<Longrightarrow>
      wellTracked (updateTaskStatus ?tid st err None ?tr1)
      \<and> (\<forall>tid'. tid' \<noteq> ?tid \<longrightarrow>
            taskState (updateTaskStatus ?tid st err None ?tr1) tid' = taskState tr tid')"
  proof -
    fix st err
    assume st: "st = completed \<or> st = error_status"
    have "wellTracked (updateTaskStatus ?tid st err None ?tr1)"
      using updateTaskStatus_legal[OF wt1 st1, of st None err] st by simp
    moreover from updateTaskStatus_effect[OF st1, of st err None] frame1
    have "\<forall>tid'. tid' \<noteq> ?tid \<longrightarrow>
            taskState (updateTaskStatus ?tid st err None ?tr1) tid' = taskState tr tid'"
      by auto
    ultimately show "wellTracked (updateTaskStatus ?tid st err None ?tr1)
      \<and> (\<forall>tid'. tid' \<noteq> ?tid \<longrightarrow>
            taskState (updateTaskStatus ?tid st err None ?tr1) tid' = taskState tr tid')"
      by simp
  qed
  have "\<exists>st err. (st = completed \<or> st = error_status)
          \<and> fst (runTask lib config nw pIndex i prov tr) = updateTaskStatus ?tid st err None ?tr1"
    by (cases "snd (retryLoop ?fn 2 1 None)")
       (auto simp add: runTask_def retryWithBackoff_def split_beta Let_def split: option.splits)
  then show ?thesis using fin by auto
qed

lemma markInProgress_tracked:
  "wellTracked tr \<Longrightarrow> distinct ps \<Longrightarrow>
   \<forall>prov \<in> set ps. taskState tr (pIndex, prov) = Some (pending, None) \<Longrightarrow>
   wellTracked (foldl (\<lambda>t prov. updateTaskStatus (pIndex, prov) in_progress None None t) tr ps)
   \<and> (\<forall>prov \<in> set ps.
         taskState (foldl (\<lambda>t prov. updateTaskStatus (pIndex, prov) in_progress None None t) tr ps)
           (pIndex, prov) = Some (in_progress, None))
   \<and> (\<forall>p' prov'. (p' = pIndex \<longrightarrow> prov' \<notin> set ps) \<longrightarrow>
         taskState (foldl (\<lambda>t prov. updateTaskStatus (pIndex, prov) in_progress None None t) tr ps)
           (p', prov') = taskState tr (p', prov'))"
proof (induction ps arbitrary: tr)
  case Nil
  then show ?case by simp
next
  case (Cons x ps)
  let ?tr1 = "updateTaskStatus (pIndex, x) in_progress None None tr"
  let ?tr2 = "foldl (\<lambda>t prov. updateTaskStatus (pIndex, prov) in_progress None None t) ?tr1 ps"
  have st0: "taskState tr (pIndex, x) = Some (pending, None)" using Cons.prems(3) by simp
  have wt1: "wellTracked ?tr1"
    using updateTaskStatus_legal[OF Cons.prems(1) st0, of in_progress None None] by simp
  from updateTaskStatus_effect[OF st0, of in_progress None None]
  have st1: "taskState ?tr1 (pIndex, x) = Some (in_progress, None)"
    and frame1: "\<forall>tid'. tid' \<noteq> (pIndex, x) \<longrightarrow> taskState ?tr1 tid' = taskState tr tid'"
    by auto
  from Cons.prems(2) have d: "distinct ps" and nx: "x \<notin> set ps" by simp_all
  have rest: "\<forall>prov \<in> set ps. taskState ?tr1 (pIndex, prov) = Some (pending, None)"
  proof
    fix prov assume mem: "prov \<in> set ps"
    with nx have "(pIndex, prov) \<noteq> (pIndex, x)" by auto
    with frame1 have "taskState ?tr1 (pIndex, prov) = taskState tr (pIndex, prov)" by blast
    then show "taskState ?tr1 (pIndex, prov) = Some (pending, None)"
      using Cons.prems(3) mem by simp
  qed
  from Cons.IH[OF wt1 d rest]
  have ih1: "wellTracked ?tr2"
    and ih2: "\<forall>prov \<in> set ps. taskState ?tr2 (pIndex, prov) = Some (in_progress, None)"
    and ih3: "\<forall>p' prov'. (p' = pIndex \<longrightarrow> prov' \<notin> set ps) \<longrightarrow>
                taskState ?tr2 (p', prov') = taskState ?tr1 (p', prov')"
    by simp_all
  have xs: "taskState ?tr2 (pIndex, x) = Some (in_progress, None)"
    using ih3[rule_format, of pIndex x] nx st1 by simp
  have frame: "\<forall>p' prov'. (p' = pIndex \<longrightarrow> prov' \<notin> set (x # ps)) \<longrightarrow>
                taskState ?tr2 (p', prov') = taskState tr (p', prov')"
  proof (intro allI impI)
    fix p' prov' assume out: "p' = pIndex \<longrightarrow> prov' \<notin> set (x # ps)"
    then have "(p', prov') \<noteq> (pIndex, x)" by auto
    with frame1 have "taskState ?tr1 (p', prov') = taskState tr (p', prov')" by blast
    moreover from out have "taskState ?tr2 (p', prov') = taskState ?tr1 (p', prov')"
      using ih3[rule_format, of p' prov'] by simp
    ultimately show "taskState ?tr2 (p', prov') = taskState tr (p', prov')" by simp
  qed
  have "foldl (\<lambda>t prov. updateTaskStatus (pIndex, prov) in_progress None None t) tr (x # ps) = ?tr2"
    by simp
  then show ?case using ih1 ih2 xs frame by simp
qed

lemma runTasks_tracked:
  "wellTracked tr \<Longrightarrow> distinct (map snd l) \<Longrightarrow>
   \<forall>prov \<in> set (map snd l). taskState tr (pIndex, prov) = Some (in_progress, None) \<Longrightarrow>
   wellTracked (fst (runTasks lib config nw pIndex l tr))
   \<and> (\<forall>p' prov'. (p' = pIndex \<longrightarrow> prov' \<notin> set (map snd l)) \<longrightarrow>
         taskState (fst (runTasks lib config nw pIndex l tr)) (p', prov') = taskState tr (p', prov'))"
proof (induction l arbitrary: tr)
  case Nil
  then show ?case by simp
next
  case (Cons x l)
  obtain i prov where x: "x = (i, prov)" by (cases x)
  obtain tr1 res where rt: "runTask lib config nw pIndex i prov tr = (tr1, res)"
    by (cases "runTask lib config nw pIndex i prov tr")
  have st0: "taskState tr (pIndex, prov) = Some (in_progress, None)"
    using Cons.prems(3) x by simp
  from runTask_tracked[OF Cons.prems(1) st0, of lib config nw i] rt
  have wt1: "wellTracked tr1"
    and frame1: "\<forall>tid'. tid' \<noteq> (pIndex, prov) \<longrightarrow> taskState tr1 tid' = taskState tr tid'"
    by simp_all
  from Cons.prems(2) x have d: "distinct (map snd l)" and nx: "prov \<notin> set (map snd l)"
    by simp_all
  have rest: "\<forall>prov' \<in> set (map snd l). taskState tr1 (pIndex, prov') = Some (in_progress, None)"
  proof
    fix prov' assume mem: "prov' \<in> set (map snd l)"
    with nx have "(pIndex, prov') \<noteq> (pIndex, prov)" by auto
    with frame1 have "taskState tr1 (pIndex, prov') = taskState tr (pIndex, prov')" by blast
    then show "taskState tr1 (pIndex, prov') = Some (in_progress, None)"
      using Cons.prems(3) mem by auto
  qed
  let ?tr2 = "fst (runTasks lib config nw pIndex l tr1)"
  from Cons.IH[OF wt1 d rest]
  have ih1: "wellTracked ?tr2"
    and ih3: "\<forall>p' prov'. (p' = pIndex \<longrightarrow> prov' \<notin> set (map snd l)) \<longrightarrow>
                taskState ?tr2 (p', prov') = taskState tr1 (p', prov')"
    by simp_all
  have frame1': "\<forall>p' prov'. (p' = pIndex \<longrightarrow> prov' \<notin> set (map snd (x # l))) \<longrightarrow>
                taskState tr1 (p', prov') = taskState tr (p', prov')"
  proof (intro allI impI)
    fix p' prov' assume out: "p' = pIndex \<longrightarrow> prov' \<notin> set (map snd (x # l))"
    then have "(p', prov') \<noteq> (pIndex, prov)" using x by auto
    with frame1 show "taskState tr1 (p', prov') = taskState tr (p', prov')" by blast
  qed
  have frame2: "\<forall>p' prov'. (p' = pIndex \<longrightarrow> prov' \<notin> set (map snd (x # l))) \<longrightarrow>
                taskState ?tr2 (p', prov') = taskState tr (p', prov')"
  proof (intro allI impI)
    fix p' prov' assume out: "p' = pIndex \<longrightarrow> prov' \<notin> set (map snd (x # l))"
    then have "p' = pIndex \<longrightarrow> prov' \<notin> set (map snd l)" by simp
    with ih3 have "taskState ?tr2 (p', prov') = taskState tr1 (p', prov')" by blast
    with frame1' out show "taskState ?tr2 (p', prov') = taskState tr (p', prov')" by simp
  qed
  have "fst (runTasks lib config nw pIndex (x # l) tr) = tr1
      \<or> fst (runTasks lib config nw pIndex (x # l) tr) = ?tr2"
    using rt x by (cases res; cases "runTasks lib config nw pIndex l tr1"; cases "snd (runTasks lib config nw pIndex l tr1)") auto
  then show ?case using wt1 ih1 frame1' frame2 by auto
qed

lemma runPrompt_tracked:
  assumes "wellTracked tr" and "distinct (providers config)"
    and "\<forall>prov \<in> set (providers config). taskState tr (pIndex, prov) = Some (pending, None)"
  shows "wellTracked (fst (runPrompt lib config clients nw pIndex tr))
       \<and> (\<forall>p' prov'. p' \<noteq> pIndex \<longrightarrow>
             taskState (fst (runPrompt lib config clients nw pIndex tr)) (p', prov')
               = taskState tr (p', prov'))"
proof -
  let ?tr1 = "foldl (\<lambda>t prov. updateTaskStatus (pIndex, prov) in_progress None None t) tr
                (providers config)"
  from markInProgress_tracked[OF assms]
  have wt1: "wellTracked ?tr1"
    and st1: "\<forall>prov \<in> set (providers config). taskState ?tr1 (pIndex, prov) = Some (in_progress, None)"
    and frame1: "\<forall>p' prov'. (p' = pIndex \<longrightarrow> prov' \<notin> set (providers config)) \<longrightarrow>
                   taskState ?tr1 (p', prov') = taskState tr (p', prov')"
    by simp_all
  let ?l = "enumerate 0 (providers config)"
  have snd_l: "map snd ?l = providers config" by simp
  from runTasks_tracked[of ?tr1 ?l pIndex lib config nw] wt1 st1 assms(2)
  have wt2: "wellTracked (fst (runTasks lib config nw pIndex ?l ?tr1))"
    and frame2: "\<forall>p' prov'. (p' = pIndex \<longrightarrow> prov' \<notin> set (providers config)) \<longrightarrow>
         taskState (fst (runTasks lib config nw pIndex ?l ?tr1)) (p', prov') = taskState ?tr1 (p', prov')"
    unfolding snd_l by simp_all
  show ?thesis
  proof (cases "firstGuardError config clients (providers config)")
    case (Some e)
    then have "fst (runPrompt lib config clients nw pIndex tr) = ?tr1"
      by (simp add: runPrompt_def Let_def)
    then show ?thesis using wt1 frame1 by simp
  next
    case None
    then have "fst (runPrompt lib config clients nw pIndex tr)
        = fst (runTasks lib config nw pIndex ?l ?tr1)"
      by (simp add: runPrompt_def Let_def)
    then show ?thesis using wt2 frame1 frame2 by simp
  qed
qed

lemma runPrompts_tracked:
  "wellTracked tr \<Longrightarrow> distinct (providers config) \<Longrightarrow> distinct (map fst l) \<Longrightarrow>
   \<forall>p \<in> set (map fst l). \<forall>prov \<in> set (providers config).
      taskState tr (p, prov) = Some (pending, None) \<Longrightarrow>
   wellTracked (fst (runPrompts lib config clients nw l tr acc))"
proof (induction l arbitrary: tr acc)
  case Nil
  then show ?case by simp
next
  case (Cons x l)
  obtain pIndex q where x: "x = (pIndex, q)" by (cases x)
  obtain tr1 res where rp: "runPrompt lib config clients nw pIndex tr = (tr1, res)"
    by (cases "runPrompt lib config clients nw pIndex tr")
  have st0: "\<forall>prov \<in> set (providers config). taskState tr (pIndex, prov) = Some (pending, None)"
    using Cons.prems(4) x by simp
  from runPrompt_tracked[OF Cons.prems(1,2) st0, of lib clients nw] rp
  have wt1: "wellTracked tr1"
    and frame1: "\<forall>p' prov'. p' \<noteq> pIndex \<longrightarrow> taskState tr1 (p', prov') = taskState tr (p', prov')"
    by simp_all
  from Cons.prems(3) x have d: "distinct (map fst l)" and nx: "pIndex \<notin> set (map fst l)"
    by simp_all
  have rest: "\<forall>p \<in> set (map fst l). \<forall>prov \<in> set (providers config).
      taskState tr1 (p, prov) = Some (pending, None)"
  proof (intro ballI)
    fix p prov assume mem: "p \<in> set (map fst l)" "prov \<in> set (providers config)"
    with nx have "p \<noteq> pIndex" by auto
    with frame1 have "taskState tr1 (p, prov) = taskState tr (p, prov)" by blast
    then show "taskState tr1 (p, prov) = Some (pending, None)"
      using Cons.prems(4) mem by auto
  qed
  show ?case
  proof (cases res)
    case (Inl e)
    then show ?thesis using rp x wt1 by simp
  next
    case (Inr rs)
    then show ?thesis using rp x Cons.IH[OF wt1 Cons.prems(2) d rest] by simp
  qed
qed

lemma buildTasks_pending: "t \<in> set (buildTasks config) \<Longrightarrow> status t = pending \<and> retries t = None"
  by (auto simp add: buildTasks_def)

lemma buildTasks_has:
  assumes "p < length (prompts config)" and "prov \<in> set (providers config)"
  shows "\<exists>t \<in> set (buildTasks config). taskId t = (p, prov)"
proof -
  have "(p, prompts config ! p) \<in> set (enumerate 0 (prompts config))"
    using assms(1) by (simp add: in_set_enumerate_eq)
  then show ?thesis using assms(2) unfolding buildTasks_def by force
qed

lemma buildTasks_state:
  assumes "p < length (prompts config)" and "prov \<in> set (providers config)"
  shows "taskState \<lparr>tasks = buildTasks config, emitted = [buildTasks config]\<rparr> (p, prov)
           = Some (pending, None)"
proof -
  from buildTasks_has[OF assms] have "find (\<lambda>t. taskId t = (p, prov)) (buildTasks config) \<noteq> None"
    by (auto simp add: find_None_iff)
  then obtain t where t: "find (\<lambda>t. taskId t = (p, prov)) (buildTasks config) = Some t" by auto
  then have "t \<in> set (buildTasks config)" by (auto simp add: find_Some_iff)
  from buildTasks_pending[OF this] t show ?thesis by (simp add: taskState_def)
qed

lemma runAnalysis_tracked:
  assumes "distinct (providers config)"
  shows "successively legalMove (fst (runAnalysis lib config nw))"
proof (cases "initializeClients config")
  case (Inl e)
  then show ?thesis by (simp add: runAnalysis_def)
next
  case (Inr clients)
  let ?tr0 = "\<lparr>tasks = buildTasks config, emitted = [buildTasks config]\<rparr>"
  let ?l = "enumerate 0 (prompts config)"
  have wt0: "wellTracked ?tr0" by (simp add: wellTracked_def)
  have d: "distinct (map fst ?l)" by simp
  have st0: "\<forall>p \<in> set (map fst ?l). \<forall>prov \<in> set (providers config).
      taskState ?tr0 (p, prov) = Some (pending, None)"
    using buildTasks_state by simp
  from runPrompts_tracked[OF wt0 assms d st0, of lib clients nw "[]"]
  have "wellTracked (fst (runPrompts lib config clients nw ?l ?tr0 []))" .
  then show ?thesis
    by (simp add: runAnalysis_def Inr Let_def split_beta wellTracked_def)
qed

lemma updateTaskStatus_emitted:
  "prefix (emitted tr) (emitted (updateTaskStatus tid st err rt tr))"
  by (simp add: updateTaskStatus_def Let_def split: option.splits)

lemma onRetryEvents_emitted:
  "prefix (emitted tr) (emitted (foldl (onRetryEvent tid) tr evs))"
proof (induction evs arbitrary: tr)
  case Nil
  then show ?case by simp
next
  case (Cons ev evs)
  have "prefix (emitted tr) (emitted (onRetryEvent tid tr ev))"
    by (cases ev) (simp_all add: updateTaskStatus_emitted)
  from prefix_order.trans[OF this Cons.IH[of "onRetryEvent tid tr ev"]] show ?case
    by simp
qed

lemma runTask_emitted:
  "prefix (emitted tr) (emitted (fst (runTask lib config nw pIndex i prov tr)))"
proof -
  let ?tr1 = "foldl (onRetryEvent (pIndex, prov)) tr
                (fst (retryWithBackoff (providerFunction lib config nw pIndex i prov) 2))"
  have "\<exists>st err. fst (runTask lib config nw pIndex i prov tr)
          = updateTaskStatus (pIndex, prov) st err None ?tr1"
    by (cases "snd (retryWithBackoff (providerFunction lib config nw pIndex i prov) 2)")
       (auto simp add: runTask_def split_beta Let_def split: option.splits)
  then obtain st err where "fst (runTask lib config nw pIndex i prov tr)
          = updateTaskStatus (pIndex, prov) st err None ?tr1" by blast
  then show ?thesis
    using prefix_order.trans[OF onRetryEvents_emitted[of tr "(pIndex, prov)"
            "fst (retryWithBackoff (providerFunction lib config nw pIndex i prov) 2)"]
          updateTaskStatus_emitted[of ?tr1 "(pIndex, prov)" st err None]]
    by simp
qed

lemma runTasks_emitted:
  "prefix (emitted tr) (emitted (fst (runTasks lib config nw pIndex l tr)))"
proof (induction l arbitrary: tr)
  case Nil
  then show ?case by simp
next
  case (Cons x l)
  obtain i prov where x: "x = (i, prov)" by (cases x)
  obtain tr1 res where rt: "runTask lib config nw pIndex i prov tr = (tr1, res)"
    by (cases "runTask lib config nw pIndex i prov tr")
  from runTask_emitted[of tr lib config nw pIndex i prov] rt
  have p1: "prefix (emitted tr) (emitted tr1)" by simp
  have "fst (runTasks lib config nw pIndex (x # l) tr) = tr1
      \<or> fst (runTasks lib config nw pIndex (x # l) tr) = fst (runTasks lib config nw pIndex l tr1)"
    using rt x by (cases res; cases "runTasks lib config nw pIndex l tr1"; cases "snd (runTasks lib config nw pIndex l tr1)") auto
  then show ?case using p1 prefix_order.trans[OF p1 Cons.IH[of tr1]] by auto
qed

lemma markInProgress_emitted:
  "prefix (emitted tr)
     (emitted (foldl (\<lambda>t prov. updateTaskStatus (pIndex, prov) in_progress None None t) tr ps))"
proof (induction ps arbitrary: tr)
  case Nil
  then show ?case by simp
next
  case (Cons x ps)
  from prefix_order.trans[OF updateTaskStatus_emitted[of tr "(pIndex, x)" in_progress None None]
         Cons.IH[of "updateTaskStatus (pIndex, x) in_progress None None tr"]]
  show ?case by simp
qed

lemma runPrompt_emitted:
  "prefix (emitted tr) (emitted (fst (runPrompt lib config clients nw pIndex tr)))"
proof (cases "firstGuardError config clients (providers config)")
  case (Some e)
  then show ?thesis using markInProgress_emitted[of tr pIndex "providers config"]
    by (simp add: runPrompt_def Let_def)
next
  case None
  then show ?thesis
    using prefix_order.trans[OF markInProgress_emitted[of tr pIndex "providers config"]
      runTasks_emitted[of "foldl (\<lambda>t prov. updateTaskStatus (pIndex, prov) in_progress None None t) tr (providers config)"
         lib config nw pIndex "enumerate 0 (providers config)"]]
    by (simp add: runPrompt_def Let_def)
qed

lemma runPrompts_emitted:
  "prefix (emitted tr) (emitted (fst (runPrompts lib config clients nw l tr acc)))"
proof (induction l arbitrary: tr acc)
  case Nil
  then show ?case by simp
next
  case (Cons x l)
  obtain pIndex q where x: "x = (pIndex, q)" by (cases x)
  obtain tr1 res where rp: "runPrompt lib config clients nw pIndex tr = (tr1, res)"
    by (cases "runPrompt lib config clients nw pIndex tr")
  from runPrompt_emitted[of tr lib config clients nw pIndex] rp
  have p1: "prefix (emitted tr) (emitted tr1)" by simp
  show ?case
  proof (cases res)
    case (Inl e)
    then show ?thesis using rp x p1 by simp
  next
    case (Inr rs)
    then show ?thesis using rp x prefix_order.trans[OF p1 Cons.IH[of tr1]] by simp
  qed
qed

lemma runAnalysis_first_snapshot:
  "fst (runAnalysis lib config nw) = [] \<or> hd (fst (runAnalysis lib config nw)) = buildTasks config"
proof (cases "initializeClients config")
  case (Inl e)
  then show ?thesis by (simp add: runAnalysis_def)
next
  case (Inr clients)
  let ?tr0 = "\<lparr>tasks = buildTasks config, emitted = [buildTasks config]\<rparr>"
  from runPrompts_emitted[of ?tr0 lib config clients nw "enumerate 0 (prompts config)" "[]"]
  have "prefix [buildTasks config]
          (fst (runAnalysis lib config nw))"
    by (simp add: runAnalysis_def Inr Let_def split_beta)
  then show ?thesis by (auto simp add: prefix_def)
qed

lemma buildTasks_all_pending: "list_all (\<lambda>t. status t = pending) (buildTasks config)"
  using buildTasks_pending by (auto simp add: list_all_iff)

lemma markInProgress_effect:
  "\<forall>prov \<in> set ps. taskState tr (pIndex, prov) \<noteq> None \<Longrightarrow> last (emitted tr) = tasks tr \<Longrightarrow>
   emitted tr \<noteq> [] \<Longrightarrow>
   (let tr1 = foldl (\<lambda>t prov. updateTaskStatus (pIndex, prov) in_progress None None t) tr ps in
    length (emitted tr1) = length (emitted tr) + length ps
    \<and> last (emitted tr1) = tasks tr1 \<and> emitted tr1 \<noteq> []
    \<and> (\<forall>prov \<in> set ps. \<exists>r. taskState tr1 (pIndex, prov) = Some (in_progress, r))
    \<and> (\<forall>tid. taskState tr tid \<noteq> None \<longrightarrow> taskState tr1 tid \<noteq> None)
    \<and> (\<forall>tid r. taskState tr tid = Some (in_progress, r) \<longrightarrow>
          (\<exists>r'. taskState tr1 tid = Some (in_progress, r'))))"
proof (induction ps arbitrary: tr)
  case Nil
  then show ?case by simp
next
  case (Cons x ps)
  let ?tr1 = "updateTaskStatus (pIndex, x) in_progress None None tr"
  let ?tr2 = "foldl (\<lambda>t prov. updateTaskStatus (pIndex, prov) in_progress None None t) ?tr1 ps"
  from Cons.prems(1) obtain s0 r0 where st0: "taskState tr (pIndex, x) = Some (s0, r0)" by auto
  from updateTaskStatus_effect[OF st0, of in_progress None None]
  obtain i new where e:
    "tasks ?tr1 = (tasks tr)[i := new]" "emitted ?tr1 = emitted tr @ [(tasks tr)[i := new]]"
    "taskState ?tr1 (pIndex, x) = Some (in_progress, r0)"
    "\<forall>tid'. tid' \<noteq> (pIndex, x) \<longrightarrow> taskState ?tr1 tid' = taskState tr tid'"
    by auto
  have keep: "\<forall>tid. taskState tr tid \<noteq> None \<longrightarrow> taskState ?tr1 tid \<noteq> None"
  proof (intro allI impI)
    fix tid assume nn: "taskState tr tid \<noteq> None"
    show "taskState ?tr1 tid \<noteq> None"
    proof (cases "tid = (pIndex, x)")
      case True then show ?thesis using e(3) by simp
    next
      case False
      with e(4) have "taskState ?tr1 tid = taskState tr tid" by blast
      with nn show ?thesis by simp
    qed
  qed
  have keep_ip: "\<forall>tid r. taskState tr tid = Some (in_progress, r) \<longrightarrow>
          (\<exists>r'. taskState ?tr1 tid = Some (in_progress, r'))"
  proof (intro allI impI)
    fix tid r assume ip: "taskState tr tid = Some (in_progress, r)"
    show "\<exists>r'. taskState ?tr1 tid = Some (in_progress, r')"
    proof (cases "tid = (pIndex, x)")
      case True then show ?thesis using e(3) by simp
    next
      case False
      with e(4) have "taskState ?tr1 tid = taskState tr tid" by blast
      with ip show ?thesis by simp
    qed
  qed
  have pre1: "\<forall>prov \<in> set ps. taskState ?tr1 (pIndex, prov) \<noteq> None"
    using Cons.prems(1) keep by simp
  have pre2: "last (emitted ?tr1) = tasks ?tr1" and pre3: "emitted ?tr1 \<noteq> []"
    using e(1,2) by simp_all
  from Cons.IH[OF pre1 pre2 pre3]
  have ih: "length (emitted ?tr2) = length (emitted ?tr1) + length ps"
    "last (emitted ?tr2) = tasks ?tr2" "emitted ?tr2 \<noteq> []"
    "\<forall>prov \<in> set ps. \<exists>r. taskState ?tr2 (pIndex, prov) = Some (in_progress, r)"
    "\<forall>tid. taskState ?tr1 tid \<noteq> None \<longrightarrow> taskState ?tr2 tid \<noteq> None"
    "\<forall>tid r. taskState ?tr1 tid = Some (in_progress, r) \<longrightarrow>
          (\<exists>r'. taskState ?tr2 tid = Some (in_progress, r'))"
    by (simp_all add: Let_def)
  have x_ip: "\<exists>r. taskState ?tr2 (pIndex, x) = Some (in_progress, r)"
    using ih(6) e(3) by blast
  have a: "length (emitted ?tr2) = length (emitted tr) + length (x # ps)"
    using ih(1) e(2) by simp
  have b: "\<forall>prov \<in> set (x # ps). \<exists>r. taskState ?tr2 (pIndex, prov) = Some (in_progress, r)"
    using ih(4) x_ip by simp
  have c: "\<forall>tid. taskState tr tid \<noteq> None \<longrightarrow> taskState ?tr2 tid \<noteq> None"
    using keep ih(5) by blast
  have d: "\<forall>tid r. taskState tr tid = Some (in_progress, r) \<longrightarrow>
          (\<exists>r'. taskState ?tr2 tid = Some (in_progress, r'))"
    using keep_ip ih(6) by blast
  have "foldl (\<lambda>t prov. updateTaskStatus (pIndex, prov) in_progress None None t) tr (x # ps) = ?tr2"
    by simp
  then show ?case unfolding Let_def using a ih(2,3) b c d by simp
qed

lemma taskState_in_tasks:
  "taskState tr tid = Some (s, r) \<Longrightarrow> \<exists>t \<in> set (tasks tr). taskId t = tid \<and> status t = s"
  by (auto simp add: taskState_def find_Some_iff)

section \<open>Verification: rejected runs and the lifecycle of tasks\<close>

lemma downNet_snapshots:
  "map (map (\<lambda>t. (status t, retries t))) (fst (runAnalysis exampleLib exampleConfig downNet))
     = [[(pending, None)], [(in_progress, None)], [(in_progress, Some 1)],
        [(in_progress, Some 2)], [(error_status, Some 2)]]"
proof -
  let ?fn = "providerFunction exampleLib exampleConfig downNet 0 0 Gemini"
  have fn: "\<And>k. runGeminiAnalysisForPrompt exampleLib exampleConfig (geminiNet downNet 0 0 k)
                 = Rejects (ErrorObject unavailable)"
    by (simp add: runGeminiAnalysisForPrompt_def downNet_def geminiCatch_def unavailable_def)
  have r: "isRetryableError (ErrorObject unavailable)"
    by (simp add: isRetryableError_def unavailable_def)
  have loop: "retryWithBackoff ?fn 2 =
      ([Call 1, OnRetry unavailable 1, Wait 1000, Call 2, OnRetry unavailable 2, Wait 2000, Call 3],
       Threw unavailable)"
    using r by (simp add: retryWithBackoff_def retryLoop_retry retryLoop_stop fn)
  have clients: "initializeClients exampleConfig =
      Inr \<lparr>geminiClient = Some ''key'', openaiClient = None, perplexityClient = None\<rparr>"
    by (simp add: initializeClients_def exampleConfig_def truthy_def)
  have guard: "firstGuardError exampleConfig
      \<lparr>geminiClient = Some ''key'', openaiClient = None, perplexityClient = None\<rparr> [Gemini] = None"
    by (simp add: exampleConfig_def truthy_def)
  have provs: "providers exampleConfig = [Gemini]" and ps: "prompts exampleConfig = [''Who leads PIM software?'']"
    by (simp_all add: exampleConfig_def)
  show ?thesis
    by (simp add: runAnalysis_def clients ps provs guard runPrompt_def runTask_def loop
          exampleLib_serialises buildTasks_def updateTaskStatus_def Let_def truthy_def
          unavailable_def
          del: firstGuardError.simps)
qed

lemma dispatchGuard_no_model:
  "\<not> truthy (models config prov) \<Longrightarrow> dispatchGuard config clients prov \<noteq> None"
  by (cases prov) simp_all

lemma runAnalysis_guard_rejects:
  assumes "initializeClients config = Inr clients"
    and "firstGuardError config clients (providers config) = Some e"
    and "prompts config \<noteq> []"
  shows "runAnalysis lib config nw =
     (emitted (foldl (\<lambda>t prov. updateTaskStatus (0, prov) in_progress None None t)
                 \<lparr>tasks = buildTasks config, emitted = [buildTasks config]\<rparr> (providers config)),
      Inl e)"
proof -
  from assms(3) obtain q qs where ps: "prompts config = q # qs" by (cases "prompts config") auto
  show ?thesis
    by (simp add: runAnalysis_def assms(1,2) ps runPrompt_def Let_def)
qed

text \<open>
  Claim C6 says that a unit whose adapter throws out of the retry engine does not reject
  the run: the run records for it a result with the exception's message, an empty
  response, empty lists and the dump of the exception, and the run fails as a whole on a
  configuration error only. The \<^verbatim>\<open>catch\<close> block of lines 541-547 does this, but its call of
  \<^verbatim>\<open>JSON.stringify\<close> stands outside any guard. With Gemini selected, its credential and
  model identifier present, and the Gemini client failing with an error that holds a
  BigInt, the adapter throws, the task is marked \<^verbatim>\<open>error\<close>, and then the run rejects with
  the TypeError of \<^verbatim>\<open>JSON.stringify\<close>, which is no configuration error; no result is
  recorded.
\<close>

theorem unserialisable_error_escapes_unit:
  "configured exampleConfig
   \<and> retryWithBackoff (providerFunction bigintLib exampleConfig overloadedNet 0 0 Gemini) 2
       = ([Call 1], Threw bigintError)
   \<and> snd (runAnalysis bigintLib exampleConfig overloadedNet)
       = Inl (JsError TypeError ''Do not know how to serialize a BigInt'')
   \<and> \<not> configurationError (JsError TypeError ''Do not know how to serialize a BigInt'')
   \<and> map (map (\<lambda>t. (status t, taskError t)))
         (fst (runAnalysis bigintLib exampleConfig overloadedNet))
       = [[(pending, None)], [(in_progress, None)],
          [(error_status, Some ''The model is overloaded. Please try again later.'')]]"
proof -
  have clients: "initializeClients exampleConfig =
      Inr \<lparr>geminiClient = Some ''key'', openaiClient = None, perplexityClient = None\<rparr>"
    by (simp add: initializeClients_def exampleConfig_def truthy_def)
  have guard: "firstGuardError exampleConfig
      \<lparr>geminiClient = Some ''key'', openaiClient = None, perplexityClient = None\<rparr> [Gemini] = None"
    by (simp add: exampleConfig_def truthy_def)
  have provs: "providers exampleConfig = [Gemini]"
    and ps: "prompts exampleConfig = [''Who leads PIM software?'']"
    by (simp_all add: exampleConfig_def)
  have throws: "stringifyThrows bigintLib bigintError
      = Some (JsError TypeError ''Do not know how to serialize a BigInt'')"
    by (simp add: bigintLib_def)
  have run: "snd (runAnalysis bigintLib exampleConfig overloadedNet)
       = Inl (JsError TypeError ''Do not know how to serialize a BigInt'')"
    by (simp add: runAnalysis_def clients ps provs guard runPrompt_def runTask_def
          overloaded_gemini_throws throws Let_def split_beta
          del: firstGuardError.simps)
  have msg: "message bigintError = ''The model is overloaded. Please try again later.''"
    by (simp add: bigintError_def)
  have snaps: "map (map (\<lambda>t. (status t, taskError t)))
         (fst (runAnalysis bigintLib exampleConfig overloadedNet))
       = [[(pending, None)], [(in_progress, None)],
          [(error_status, Some ''The model is overloaded. Please try again later.'')]]"
    by (simp add: runAnalysis_def clients ps provs guard runPrompt_def runTask_def
          overloaded_gemini_throws throws buildTasks_def updateTaskStatus_def Let_def
          truthy_def msg
          del: firstGuardError.simps)
  have nc: "\<not> configurationError (JsError TypeError ''Do not know how to serialize a BigInt'')"
    by (simp add: configurationError_def)
  show ?thesis
    by (intro conjI) (fact exampleConfig_configured overloaded_gemini_throws run nc snaps)+
qed

text \<open>
  Claim C9: when the selected providers are distinct, every snapshot the run hands to the
  observer comes from the one before by one legal step of one task: \<^verbatim>\<open>pending\<close> to
  \<^verbatim>\<open>in_progress\<close>, \<^verbatim>\<open>in_progress\<close> again with the retry counter one higher, or
  \<^verbatim>\<open>in_progress\<close> to \<^verbatim>\<open>completed\<close> or \<^verbatim>\<open>error\<close>; no task moves after that, and in the
  first snapshot every task is \<^verbatim>\<open>pending\<close>. (The units of one prompt settle concurrently;
  the steps of a task keep their order in every interleaving, and a step touches no other
  task.)
\<close>

theorem task_lifecycle:
  assumes "distinct (providers config)"
  shows "successively legalMove (fst (runAnalysis lib config nw))
       \<and> (\<forall>first rest. fst (runAnalysis lib config nw) = first # rest \<longrightarrow>
             first = buildTasks config \<and> list_all (\<lambda>t. status t = pending) first)"
proof -
  have "\<forall>first rest. fst (runAnalysis lib config nw) = first # rest \<longrightarrow>
             first = buildTasks config \<and> list_all (\<lambda>t. status t = pending) first"
    using runAnalysis_first_snapshot[of lib config nw] buildTasks_all_pending[of config] by auto
  with runAnalysis_tracked[OF assms, of lib nw] show ?thesis by simp
qed

theorem task_lifecycle_witness:
  "distinct (providers exampleConfig)
   \<and> successively legalMove (fst (runAnalysis exampleLib exampleConfig downNet))
   \<and> map (map (\<lambda>t. (status t, retries t))) (fst (runAnalysis exampleLib exampleConfig downNet))
     = [[(pending, None)], [(in_progress, None)], [(in_progress, Some 1)],
        [(in_progress, Some 2)], [(error_status, Some 2)]]"
proof -
  have d: "distinct (providers exampleConfig)" by (simp add: exampleConfig_def)
  from task_lifecycle[OF d, of exampleLib downNet] d downNet_snapshots show ?thesis by simp
qed

text \<open>
  \<open>initializeClients\<close> throws for a missing Gemini key and for no other: without an OpenAI
  key the run starts, marks the unit, and rejects at the guard of the \<^verbatim>\<open>switch\<close>.
\<close>

lemma missing_openai_key_rejects_late:
  "map (map status) (fst (runAnalysis exampleLib noOpenAIKeyConfig downNet)) = [[pending], [in_progress]]
   \<and> snd (runAnalysis exampleLib noOpenAIKeyConfig downNet)
       = Inl (JsError GenericError ''OpenAI client not initialized properly.'')"
proof -
  have clients: "initializeClients noOpenAIKeyConfig =
      Inr \<lparr>geminiClient = None, openaiClient = None, perplexityClient = None\<rparr>"
    by (simp add: initializeClients_def noOpenAIKeyConfig_def exampleConfig_def truthy_def)
  have guard: "firstGuardError noOpenAIKeyConfig
      \<lparr>geminiClient = None, openaiClient = None, perplexityClient = None\<rparr> [OpenAI]
        = Some (JsError GenericError ''OpenAI client not initialized properly.'')"
    by (simp add: truthy_def)
  have provs: "providers noOpenAIKeyConfig = [OpenAI]"
    and ps: "prompts noOpenAIKeyConfig = [''Who leads PIM software?'']"
    by (simp_all add: noOpenAIKeyConfig_def exampleConfig_def)
  show ?thesis
    by (simp add: runAnalysis_def clients ps provs guard runPrompt_def
          buildTasks_def updateTaskStatus_def Let_def truthy_def
          del: firstGuardError.simps)
qed

text \<open>
  Claim C2 says that a run whose configuration lacks a credential or a model identifier
  rejects before any unit of work is created or marked \<^verbatim>\<open>in_progress\<close>. Without a model
  identifier for Gemini (the key being present) the tasks are created, the all-pending
  snapshot is emitted, the unit is marked \<^verbatim>\<open>in_progress\<close>, and only then the run rejects.
\<close>

theorem missing_model_starts_units:
  "map (map status) (fst (runAnalysis exampleLib noModelConfig downNet)) = [[pending], [in_progress]]
   \<and> snd (runAnalysis exampleLib noModelConfig downNet)
       = Inl (JsError GenericError ''Gemini client not initialized properly.'')"
proof -
  have clients: "initializeClients noModelConfig =
      Inr \<lparr>geminiClient = Some ''key'', openaiClient = None, perplexityClient = None\<rparr>"
    by (simp add: initializeClients_def noModelConfig_def exampleConfig_def truthy_def)
  have guard: "firstGuardError noModelConfig
      \<lparr>geminiClient = Some ''key'', openaiClient = None, perplexityClient = None\<rparr> [Gemini]
        = Some (JsError GenericError ''Gemini client not initialized properly.'')"
    by (simp add: noModelConfig_def exampleConfig_def truthy_def)
  have provs: "providers noModelConfig = [Gemini]"
    and ps: "prompts noModelConfig = [''Who leads PIM software?'']"
    by (simp_all add: noModelConfig_def exampleConfig_def)
  show ?thesis
    by (simp add: runAnalysis_def clients ps provs guard runPrompt_def
          buildTasks_def updateTaskStatus_def Let_def truthy_def
          del: firstGuardError.simps)
qed

text \<open>
  Claim C2, amended: when Gemini is selected and has no credential, the run rejects with
  a configuration error before any unit of work is created, and no snapshot is emitted.
  When every selected provider has a credential, one of them lacks a model identifier
  and there is a prompt, the run rejects with a configuration error after it has emitted
  the all-pending snapshot and marked the units of the first prompt \<^verbatim>\<open>in_progress\<close>.
\<close>

theorem configuration_errors:
  "(Gemini \<in> set (providers config) \<and> \<not> truthy (geminiKey (apiKeys config)) \<longrightarrow>
      runAnalysis lib config nw = ([], Inl (JsError GenericError ''Google Gemini API Key is missing.'')))
   \<and> ((\<forall>prov \<in> set (providers config). truthy (credentialOf config prov))
       \<and> (\<exists>prov \<in> set (providers config). \<not> truthy (models config prov))
       \<and> prompts config \<noteq> [] \<longrightarrow>
      (\<exists>snaps e. runAnalysis lib config nw = (snaps, Inl e) \<and> configurationError e
         \<and> hd snaps = buildTasks config \<and> list_all (\<lambda>t. status t = pending) (hd snaps)
         \<and> length snaps = Suc (length (providers config))
         \<and> (\<forall>prov \<in> set (providers config).
               \<exists>t \<in> set (last snaps). taskId t = (0, prov) \<and> status t = in_progress)))"
proof (intro conjI impI)
  assume "Gemini \<in> set (providers config) \<and> \<not> truthy (geminiKey (apiKeys config))"
  then show "runAnalysis lib config nw
      = ([], Inl (JsError GenericError ''Google Gemini API Key is missing.''))"
    by (simp add: runAnalysis_def initializeClients_def)
next
  assume h: "(\<forall>prov \<in> set (providers config). truthy (credentialOf config prov))
       \<and> (\<exists>prov \<in> set (providers config). \<not> truthy (models config prov))
       \<and> prompts config \<noteq> []"
  let ?tr0 = "\<lparr>tasks = buildTasks config, emitted = [buildTasks config]\<rparr>"
  let ?tr1 = "foldl (\<lambda>t prov. updateTaskStatus (0, prov) in_progress None None t) ?tr0
                (providers config)"
  have "\<not> (Gemini \<in> set (providers config) \<and> \<not> truthy (geminiKey (apiKeys config)))"
    using h by force
  then obtain clients where c: "initializeClients config = Inr clients"
    by (simp add: initializeClients_def)
  from h obtain prov where "prov \<in> set (providers config)" "\<not> truthy (models config prov)"
    by blast
  with dispatchGuard_no_model[of config prov clients]
  have "firstGuardError config clients (providers config) \<noteq> None"
    by (auto simp add: firstGuardError_None)
  then obtain e where g: "firstGuardError config clients (providers config) = Some e" by auto
  from firstGuardError_Some[OF g] dispatchGuard_configurationError
  have ce: "configurationError e" by blast
  from h have ne: "prompts config \<noteq> []" by simp
  have run: "runAnalysis lib config nw = (emitted ?tr1, Inl e)"
    by (rule runAnalysis_guard_rejects[OF c g ne])
  have pre: "\<forall>prov \<in> set (providers config). taskState ?tr0 (0, prov) \<noteq> None"
    using buildTasks_state[of 0 config] ne by simp
  from markInProgress_effect[OF pre, of] 
  have len: "length (emitted ?tr1) = Suc (length (providers config))"
    and lst: "last (emitted ?tr1) = tasks ?tr1"
    and ip: "\<forall>prov \<in> set (providers config). \<exists>r. taskState ?tr1 (0, prov) = Some (in_progress, r)"
    by (simp_all add: Let_def)
  have marked: "\<forall>prov \<in> set (providers config).
               \<exists>t \<in> set (last (emitted ?tr1)). taskId t = (0, prov) \<and> status t = in_progress"
  proof
    fix prov assume "prov \<in> set (providers config)"
    with ip obtain r where "taskState ?tr1 (0, prov) = Some (in_progress, r)" by blast
    from taskState_in_tasks[OF this] lst
    show "\<exists>t \<in> set (last (emitted ?tr1)). taskId t = (0, prov) \<and> status t = in_progress"
      by simp
  qed
  from markInProgress_emitted[of ?tr0 0 "providers config"]
  have first: "hd (emitted ?tr1) = buildTasks config" by (auto simp add: prefix_def)
  have pend: "list_all (\<lambda>t. status t = pending) (hd (emitted ?tr1))"
    unfolding first by (rule buildTasks_all_pending)
  show "\<exists>snaps e. runAnalysis lib config nw = (snaps, Inl e) \<and> configurationError e
         \<and> hd snaps = buildTasks config \<and> list_all (\<lambda>t. status t = pending) (hd snaps)
         \<and> length snaps = Suc (length (providers config))
         \<and> (\<forall>prov \<in> set (providers config).
               \<exists>t \<in> set (last snaps). taskId t = (0, prov) \<and> status t = in_progress)"
    by (intro exI[of _ "emitted ?tr1"] exI[of _ e] conjI) (fact run ce first pend len marked)+
qed

theorem configuration_errors_witness:
  "runAnalysis exampleLib noKeyConfig downNet
     = ([], Inl (JsError GenericError ''Google Gemini API Key is missing.''))
   \<and> (\<exists>snaps e. runAnalysis exampleLib noModelConfig downNet = (snaps, Inl e)
         \<and> configurationError e \<and> length snaps = 2)"
proof -
  have k: "Gemini \<in> set (providers noKeyConfig) \<and> \<not> truthy (geminiKey (apiKeys noKeyConfig))"
    by (simp add: noKeyConfig_def exampleConfig_def truthy_def)
  have m: "(\<forall>prov \<in> set (providers noModelConfig). truthy (credentialOf noModelConfig prov))
       \<and> (\<exists>prov \<in> set (providers noModelConfig). \<not> truthy (models noModelConfig prov))
       \<and> prompts noModelConfig \<noteq> []"
    by (simp add: noModelConfig_def exampleConfig_def truthy_def)
  from configuration_errors[of noKeyConfig exampleLib downNet] k
  have a: "runAnalysis exampleLib noKeyConfig downNet
     = ([], Inl (JsError GenericError ''Google Gemini API Key is missing.''))"
    by blast
  from configuration_errors[of noModelConfig exampleLib downNet] m
  obtain snaps e where "runAnalysis exampleLib noModelConfig downNet = (snaps, Inl e)"
    "configurationError e" "length snaps = Suc (length (providers noModelConfig))"
    by blast
  then have b: "runAnalysis exampleLib noModelConfig downNet = (snaps, Inl e)"
    "configurationError e" "length snaps = 2"
    by (simp_all add: noModelConfig_def exampleConfig_def)
  show ?thesis
    by (intro conjI exI[of _ snaps] exI[of _ e]) (fact a b)+
qed

end
